theory Spec2Isabelle
  imports Complex_Main
begin

section \<open>Strings\<close>

text \<open>
  A Python \<^verbatim>\<open>str\<close> is a sequence of Unicode code points. It is modelled as a list of
  natural numbers, one per code point, so that lengths and positions count what Python
  counts. \<open>py\<close> turns an ASCII literal into such a list.
\<close>

type_synonym pystr = "nat list"

definition py :: "string \<Rightarrow> pystr" where
  "py s = map of_char s"

text \<open>
  The white space of \<^verbatim>\<open>str.strip()\<close>, \<^verbatim>\<open>str.isspace()\<close> and of \<^verbatim>\<open>\s\<close> in a
  \<^verbatim>\<open>str\<close> pattern: TAB..CR, FS..US, SPACE, NEL, NBSP, OGHAM SPACE MARK, EN QUAD..HAIR
  SPACE, LINE and PARAGRAPH SEPARATOR, NARROW NBSP, MEDIUM MATHEMATICAL SPACE and
  IDEOGRAPHIC SPACE.
\<close>

definition is_space :: "nat \<Rightarrow> bool" where
  "is_space c \<longleftrightarrow>
     (9 \<le> c \<and> c \<le> 13) \<or> (28 \<le> c \<and> c \<le> 32) \<or> c = 133 \<or> c = 160 \<or> c = 5760 \<or>
     (8192 \<le> c \<and> c \<le> 8202) \<or> c = 8232 \<or> c = 8233 \<or> c = 8239 \<or> c = 8287 \<or> c = 12288"

text \<open>\<^verbatim>\<open>s.strip()\<close>: leading and trailing white space removed.\<close>

definition strip :: "pystr \<Rightarrow> pystr" where
  "strip s = rev (dropWhile is_space (rev (dropWhile is_space s)))"

text \<open>\<^verbatim>\<open>sep.join(parts)\<close>.\<close>

fun join :: "pystr \<Rightarrow> pystr list \<Rightarrow> pystr" where
  "join sep [] = []"
| "join sep [x] = x"
| "join sep (x # y # ys) = x @ sep @ join sep (y # ys)"


section \<open>Segmentation (ai\_detector.py)\<close>

text \<open>The character class \<^verbatim>\<open>[.!?]\<close> of the sentence pattern.\<close>

definition is_terminal :: "nat \<Rightarrow> bool" where
  "is_terminal c \<longleftrightarrow> c = 46 \<or> c = 33 \<or> c = 63"

text \<open>
  \<^verbatim>\<open>re.split(r'(?<=[.!?])\s+', text)\<close>. The scan goes left to right; \<open>after\<close> says
  that the character just before the current position is one of \<^verbatim>\<open>.!?\<close> (the
  look-behind; it is false at the start of the text). A match starts at a white-space
  character in such a position and, \<^verbatim>\<open>\s+\<close> being greedy, takes the whole run of white
  space; the fragment before it is closed and the scan goes on behind the run. The head
  of the result is the fragment that is still open.
\<close>

function re_split :: "bool \<Rightarrow> pystr \<Rightarrow> pystr list" where
  "re_split after [] = [[]]"
| "re_split after (c # cs) =
     (if after \<and> is_space c then [] # re_split False (dropWhile is_space cs)
      else (case re_split (is_terminal c) cs of
              [] \<Rightarrow> [[c]]
            | f # fs \<Rightarrow> (c # f) # fs))"
  by pat_completeness auto
termination
  by (relation "measure (\<lambda>(a, s). length s)") (auto simp: length_dropWhile_le less_Suc_eq_le)

text \<open>
  \<^verbatim>\<open>[s.strip() for s in re.split(...) if s.strip()]\<close>
\<close>

definition split_sentences :: "pystr \<Rightarrow> pystr list" where
  "split_sentences text = map strip (filter (\<lambda>s. strip s \<noteq> []) (re_split False text))"

text \<open>
  \<^verbatim>\<open>text.split('\n\n')\<close>: the text is cut at each occurrence of two consecutive line
  feeds (code point 10), found left to right without overlap.
\<close>

fun split_blank :: "pystr \<Rightarrow> pystr list" where
  "split_blank [] = [[]]"
| "split_blank [c] = [[c]]"
| "split_blank (c # d # cs) =
     (if c = 10 \<and> d = 10 then [] # split_blank cs
      else (case split_blank (d # cs) of
              [] \<Rightarrow> [[c]]
            | f # fs \<Rightarrow> (c # f) # fs))"

text \<open>
  \<^verbatim>\<open>[p.strip() for p in text.split('\n\n') if p.strip()]\<close>
\<close>

definition paragraphs_from_text :: "pystr \<Rightarrow> pystr list" where
  "paragraphs_from_text text = map strip (filter (\<lambda>p. strip p \<noteq> []) (split_blank text))"

text \<open>
  Two observations used to state what the splitters do: a string holds a sentence
  boundary (a terminal mark directly followed by white space), and a string holds a
  blank line (two line feeds in a row). \<open>weave\<close> puts fragments and the separators
  between them back together.
\<close>

fun has_boundary :: "pystr \<Rightarrow> bool" where
  "has_boundary (c # d # cs) = ((is_terminal c \<and> is_space d) \<or> has_boundary (d # cs))"
| "has_boundary cs = False"

fun has_blank :: "pystr \<Rightarrow> bool" where
  "has_blank (c # d # cs) = ((c = 10 \<and> d = 10) \<or> has_blank (d # cs))"
| "has_blank cs = False"

fun weave :: "'a list list \<Rightarrow> 'a list list \<Rightarrow> 'a list" where
  "weave [] seps = []"
| "weave [f] seps = f"
| "weave (f # g # fs) [] = f @ weave (g # fs) []"
| "weave (f # g # fs) (s # seps) = f @ s @ weave (g # fs) seps"


section \<open>Word documents (ai\_detector.py)\<close>

text \<open>
  A Word document is seen through \<^verbatim>\<open>document.paragraphs\<close> only: the list of the
  paragraphs' texts. Opening a document (\<^verbatim>\<open>Document(path)\<close>) belongs to the docx
  library and may raise; it is a parameter.
\<close>

type_synonym document = "pystr list"

datatype error = IndexError | Raised pystr

definition text_from_document :: "document \<Rightarrow> pystr" where
  "text_from_document document =
     (let paragraphs = filter (\<lambda>p. strip p \<noteq> []) document
      in join [10] paragraphs)"

definition read_docx_file :: "('p \<Rightarrow> error + document) \<Rightarrow> 'p \<Rightarrow> error + pystr" where
  "read_docx_file Document path =
     (case Document path of
        Inl e \<Rightarrow> Inl e
      | Inr document \<Rightarrow> Inr (text_from_document document))"


section \<open>Classification and analysis (ai\_detector.py)\<close>

text \<open>
  The dictionaries of the program have fixed keys and are records. What the classifier
  returns for one input has \<open>label\<close> and \<open>score\<close>; a sentence entry and the analysis of
  a text extend it. Python floats are modelled by real numbers: the model says nothing
  about rounding, NaN or infinities.
\<close>

record classified =
  label :: pystr
  score :: real

record scored = classified +
  originality :: real

record sentence_result = scored +
  sentence :: pystr

record analysis = scored +
  text_of :: pystr
  sentences :: "sentence_result list"
  paragraphs :: "pystr list"

text \<open>
  The classification pipeline is an external capability. It is called with one string or
  with a list of strings, and with \<^verbatim>\<open>truncation\<close> and \<^verbatim>\<open>max_length\<close>; it returns a list
  of results or raises.
\<close>

datatype pipe_input = Single pystr | Batch "pystr list"

type_synonym pipe = "pipe_input \<Rightarrow> bool \<Rightarrow> nat \<Rightarrow> error + classified list"

text \<open>
  The state of the process: the cache of \<^verbatim>\<open>lru_cache(maxsize=1)\<close> around the loader,
  the classification calls made so far, and what was printed.
\<close>

record world =
  cache :: "pipe option"
  calls :: "pipe_input list"
  stdout :: "pystr list"

definition print :: "pystr \<Rightarrow> world \<Rightarrow> world" where
  "print line w = w\<lparr>stdout := stdout w @ [line]\<rparr>"

text \<open>
  \<open>pipeline\<close> is what \<^verbatim>\<open>pipeline("text-classification", model=...)\<close> does when it is
  called: it returns the classifier or raises. A raised exception leaves the cache empty.
\<close>

definition load_detector_pipe :: "error + pipe \<Rightarrow> world \<Rightarrow> (error + pipe) \<times> world" where
  "load_detector_pipe pipeline w =
     (case cache w of
        Some pipe \<Rightarrow> (Inr pipe, w)
      | None \<Rightarrow>
          (let w1 = print (py ''Loading Model... (First time it will take time)'') w
           in case pipeline of
                Inl e \<Rightarrow> (Inl e, w1)
              | Inr pipe \<Rightarrow> (Inr pipe, w1\<lparr>cache := Some pipe\<rparr>)))"

text \<open>\<^verbatim>\<open>pipe(inp, truncation=True, max_length=512)\<close>, recorded in \<open>calls\<close>.\<close>

definition call_pipe ::
  "pipe \<Rightarrow> pipe_input \<Rightarrow> world \<Rightarrow> (error + classified list) \<times> world" where
  "call_pipe pipe inp w = (pipe inp True 512, w\<lparr>calls := calls w @ [inp]\<rparr>)"

text \<open>
  The comprehension over \<^verbatim>\<open>enumerate(results)\<close>: \<^verbatim>\<open>sentences[idx]\<close> raises IndexError
  when the classifier returned more results than there are sentences.
\<close>

fun sentence_entries ::
  "pystr list \<Rightarrow> nat \<Rightarrow> classified list \<Rightarrow> error + sentence_result list" where
  "sentence_entries sents idx [] = Inr []"
| "sentence_entries sents idx (result # results) =
     (if idx < length sents then
        (case sentence_entries sents (Suc idx) results of
           Inl e \<Rightarrow> Inl e
         | Inr rest \<Rightarrow>
             Inr (\<lparr>label = label result,
                   score = score result * 100,
                   originality = 100 - score result * 100,
                   sentence = sents ! idx\<rparr> # rest))
      else Inl IndexError)"

definition analyze_sentences ::
  "error + pipe \<Rightarrow> pystr \<Rightarrow> world \<Rightarrow> (error + sentence_result list) \<times> world" where
  "analyze_sentences pipeline text w =
     (let sents = split_sentences text in
      if sents = [] then (Inr [], w)
      else
        (case load_detector_pipe pipeline w of
           (Inl e, w1) \<Rightarrow> (Inl e, w1)
         | (Inr pipe, w1) \<Rightarrow>
             (case call_pipe pipe (Batch sents) w1 of
                (Inl e, w2) \<Rightarrow> (Inl e, w2)
              | (Inr results, w2) \<Rightarrow> (sentence_entries sents 0 results, w2))))"

text \<open>\<^verbatim>\<open>result[0]\<close> raises IndexError on an empty result list.\<close>

definition analyze_text ::
  "error + pipe \<Rightarrow> pystr \<Rightarrow> world \<Rightarrow> (error + analysis) \<times> world" where
  "analyze_text pipeline text w =
     (case load_detector_pipe pipeline w of
        (Inl e, w1) \<Rightarrow> (Inl e, w1)
      | (Inr pipe, w1) \<Rightarrow>
          (case call_pipe pipe (Single text) w1 of
             (Inl e, w2) \<Rightarrow> (Inl e, w2)
           | (Inr [], w2) \<Rightarrow> (Inl IndexError, w2)
           | (Inr (r0 # _), w2) \<Rightarrow>
               (let lab = label r0;
                    sc = score r0 * 100
                in case analyze_sentences pipeline text w2 of
                     (Inl e, w3) \<Rightarrow> (Inl e, w3)
                   | (Inr sents, w3) \<Rightarrow>
                       (Inr \<lparr>label = lab,
                             score = sc,
                             originality = 100 - sc,
                             text_of = text,
                             sentences = sents,
                             paragraphs = paragraphs_from_text text\<rparr>, w3))))"


section \<open>Console summary (ai\_detector.py) and page template (webapp.py)\<close>

text \<open>
  \<^verbatim>\<open>f"{x:.2f}"\<close>: the value rounded to two decimals, ties to the even neighbour, as a
  sign, the decimal digits of the integer part, a point and two digits.
\<close>

function dec :: "nat \<Rightarrow> pystr" where
  "dec n = (if n < 10 then [48 + n] else dec (n div 10) @ [48 + n mod 10])"
  by pat_completeness auto
termination
  by (relation "measure id") auto

declare dec.simps [simp del]

definition round_half_even :: "real \<Rightarrow> int" where
  "round_half_even x =
     (let f = \<lfloor>x\<rfloor>; d = x - of_int f
      in if d < 1 / 2 then f
         else if 1 / 2 < d then f + 1
         else if even f then f else f + 1)"

definition format_2f :: "real \<Rightarrow> pystr" where
  "format_2f x =
     (let n = nat (round_half_even (\<bar>x\<bar> * 100))
      in (if x < 0 then [45] else []) @ dec (n div 100) @ [46, 48 + n mod 100 div 10, 48 + n mod 10])"

text \<open>
  The two coloured circles of the messages are the code points U+1F534 and U+1F7E2.
\<close>

definition detect_ai_content ::
  "error + pipe \<Rightarrow> pystr \<Rightarrow> world \<Rightarrow> (error + analysis) \<times> world" where
  "detect_ai_content pipeline text w =
     (case analyze_text pipeline text w of
        (Inl e, w1) \<Rightarrow> (Inl e, w1)
      | (Inr analysis, w1) \<Rightarrow>
          (let sc = score analysis;
               lab = label analysis;
               w2 = print ([10] @ py ''--- Analysis Result ---'') w1;
               w5 =
                 (if lab = py ''Fake'' then
                    (let w3 = print ([128308] @ py '' ALERT: This text is likely AI Generated!'') w2;
                         w4 = print (py ''Confidence Score: '' @ format_2f sc @ py ''%'') w3
                     in if sc > 98 then
                          print (py ''Possible Source: High probability of GPT-4 or Claude (Very structured)'') w4
                        else if sc > 90 then
                          print (py ''Possible Source: ChatGPT (GPT-3.5) or Gemini'') w4
                        else
                          print (py ''Possible Source: Basic AI tool or Paraphrasing tool'') w4)
                  else
                    (let w3 = print ([128994] @ py '' This text looks Human Written.'') w2
                     in print (py ''Confidence Score: '' @ format_2f sc @ py ''%'') w3))
           in (Inr analysis, w5)))"

text \<open>The \<^verbatim>\<open>Interpretation\<close> block of the page template.\<close>

definition template_interpretation :: "analysis \<Rightarrow> pystr" where
  "template_interpretation result =
     (if score result > 98 then py ''Possible Source: GPT-4 / Claude (very structured)''
      else if score result > 90 then py ''Possible Source: ChatGPT / Gemini class models''
      else if label result = py ''Fake'' then py ''Possible Source: Basic AI/paraphrasing tool''
      else py ''Looks convincingly human-written.'')"

text \<open>
  The selection of the likely-source tier as the specification words it, to compare the
  code with: the score thresholds first, the label last. \<open>console_message\<close> and
  \<open>template_message\<close> give the line that stands for each tier on the console and on
  the page.
\<close>

datatype tier = TopTier | MidTier | BasicTool | HumanWritten

definition spec_tier :: "pystr \<Rightarrow> real \<Rightarrow> tier" where
  "spec_tier lab sc =
     (if sc > 98 then TopTier
      else if sc > 90 then MidTier
      else if lab = py ''Fake'' then BasicTool
      else HumanWritten)"

fun console_message :: "tier \<Rightarrow> pystr" where
  "console_message TopTier = py ''Possible Source: High probability of GPT-4 or Claude (Very structured)''"
| "console_message MidTier = py ''Possible Source: ChatGPT (GPT-3.5) or Gemini''"
| "console_message BasicTool = py ''Possible Source: Basic AI tool or Paraphrasing tool''"
| "console_message HumanWritten = [128994] @ py '' This text looks Human Written.''"

fun template_message :: "tier \<Rightarrow> pystr" where
  "template_message TopTier = py ''Possible Source: GPT-4 / Claude (very structured)''"
| "template_message MidTier = py ''Possible Source: ChatGPT / Gemini class models''"
| "template_message BasicTool = py ''Possible Source: Basic AI/paraphrasing tool''"
| "template_message HumanWritten = py ''Looks convincingly human-written.''"


section \<open>PDF report and its request handler (webapp.py)\<close>

text \<open>
  The canvas is the sequence of operations made on it. \<open>A4\<close> is the page size of
  reportlab (210 by 297 millimetres in points, with 72 points to the inch), and
  \<^verbatim>\<open>textwrap.wrap\<close> is a parameter.
\<close>

datatype canvas_op = SetFont pystr nat | DrawString real real pystr | ShowPage | Save

definition mm :: real where
  "mm = 72 / 2.54 * 0.1"

definition A4 :: "real \<times> real" where
  "A4 = (210 * mm, 297 * mm)"

text \<open>The loop over the wrapped lines, with the vertical cursor \<open>y\<close>.\<close>

fun draw_lines :: "real \<Rightarrow> real \<Rightarrow> real \<Rightarrow> pystr list \<Rightarrow> canvas_op list" where
  "draw_lines page_height margin y [] = []"
| "draw_lines page_height margin y (line # rest) =
     (if y < margin + 20 then
        [ShowPage, SetFont (py ''Helvetica'') 10, DrawString margin (page_height - margin) line]
          @ draw_lines page_height margin (page_height - margin - 14) rest
      else
        DrawString margin y line # draw_lines page_height margin (y - 14) rest)"

definition create_pdf_report :: "(pystr \<Rightarrow> nat \<Rightarrow> pystr list) \<Rightarrow> analysis \<Rightarrow> canvas_op list" where
  "create_pdf_report wrap analysis =
     (let (page_width, page_height) = A4;
          margin = 40;
          y0 = page_height - margin;
          c1 = [SetFont (py ''Helvetica-Bold'') 20,
                DrawString margin y0 (py ''AI Content Detector Report'')];
          y1 = y0 - 30;
          c2 = c1 @ [SetFont (py ''Helvetica'') 12,
                DrawString margin y1 (py ''Result: '' @ label analysis)];
          y2 = y1 - 16;
          c3 = c2 @ [DrawString margin y2 (py ''Confidence: '' @ format_2f (score analysis) @ py ''%'')];
          y3 = y2 - 24;
          c4 = c3 @ [SetFont (py ''Helvetica-Bold'') 14,
                DrawString margin y3 (py ''Analyzed Text'')];
          y4 = y3 - 18;
          c5 = c4 @ [SetFont (py ''Helvetica'') 10]
      in c5 @ draw_lines page_height margin y4 (wrap (text_of analysis) 90) @ [ShowPage, Save])"


text \<open>
  The handler of \<^verbatim>\<open>POST /report\<close>. \<open>form\<close> is the submitted form; the answer is a
  body with a status, or the report sent as a file.
\<close>

datatype response = Body pystr nat | Attachment "canvas_op list" pystr pystr

definition report ::
  "(pystr \<Rightarrow> nat \<Rightarrow> pystr list) \<Rightarrow> error + pipe \<Rightarrow> (pystr \<rightharpoonup> pystr) \<Rightarrow> world \<Rightarrow>
     (error + response) \<times> world" where
  "report wrap pipeline form w =
     (let text = strip (case form (py ''text'') of None \<Rightarrow> [] | Some v \<Rightarrow> v) in
      if text = [] then (Inr (Body (py ''Text is required for report generation'') 400), w)
      else
        (case analyze_text pipeline text w of
           (Inl e, w1) \<Rightarrow> (Inl e, w1)
         | (Inr analysis, w1) \<Rightarrow>
             (Inr (Attachment (create_pdf_report wrap analysis)
                     (py ''ai_detection_report.pdf'') (py ''application/pdf'')), w1)))"


section \<open>Stub classifiers and the initial state\<close>

text \<open>
  A deterministic stub that answers each input string with the result that \<open>f\<close> gives
  for it, one result per input, and the state of a process that has not loaded the model
  yet.
\<close>

definition stub :: "(pystr \<Rightarrow> classified) \<Rightarrow> pipe" where
  "stub f inp truncation max_length =
     (case inp of
        Single t \<Rightarrow> Inr [f t]
      | Batch ts \<Rightarrow> Inr (map f ts))"

definition w0 :: world where
  "w0 = \<lparr>cache = None, calls = [], stdout = []\<rparr>"


text \<open>
  The stub of the scenario of the specification: the whole text is human-written with
  confidence 0.12, its two sentences with 0.10 and 0.15 (\<^verbatim>\<open>Real\<close> is the model's
  label for human text). \<open>flaky\<close> is a classifier that raises on the inputs that
  \<open>bad\<close> selects.
\<close>

definition scenario :: "pystr \<Rightarrow> classified" where
  "scenario t =
     (if t = py ''This is obviously written by a human with quirky style!!'' then
        \<lparr>label = py ''Real'', score = 0.10\<rparr>
      else if t = py ''I think so, yes.'' then \<lparr>label = py ''Real'', score = 0.15\<rparr>
      else \<lparr>label = py ''Real'', score = 0.12\<rparr>)"

definition flaky :: "(pipe_input \<Rightarrow> bool) \<Rightarrow> error \<Rightarrow> (pystr \<Rightarrow> classified) \<Rightarrow> pipe" where
  "flaky bad e f inp truncation max_length =
     (if bad inp then Inl e else stub f inp truncation max_length)"

definition is_batch :: "pipe_input \<Rightarrow> bool" where
  "is_batch inp = (case inp of Single t \<Rightarrow> False | Batch ts \<Rightarrow> True)"




section \<open>Facts about trimming\<close>

lemma terminal_not_space: "is_terminal c \<Longrightarrow> \<not> is_space c"
  by (auto simp: is_terminal_def is_space_def)

lemma strip_Nil_iff: "strip s = [] \<longleftrightarrow> (\<forall>c\<in>set s. is_space c)"
proof
  assume "strip s = []"
  then have "dropWhile is_space (rev (dropWhile is_space s)) = []"
    by (simp add: strip_def)
  then have "\<forall>c\<in>set (rev (dropWhile is_space s)). is_space c"
    by (simp add: dropWhile_eq_Nil_conv)
  then have "\<forall>c\<in>set (dropWhile is_space s). is_space c" by simp
  then have "dropWhile is_space s = []"
    by (metis hd_dropWhile hd_in_set)
  then show "\<forall>c\<in>set s. is_space c"
    by (simp add: dropWhile_eq_Nil_conv)
next
  assume "\<forall>c\<in>set s. is_space c"
  then show "strip s = []" by (auto simp: strip_def dest: set_dropWhileD)
qed

lemma strip_decomp:
  "\<exists>a b. s = a @ strip s @ b \<and> (\<forall>c\<in>set a. is_space c) \<and> (\<forall>c\<in>set b. is_space c)"
proof -
  let ?t = "dropWhile is_space s"
  have s: "s = takeWhile is_space s @ ?t" by simp
  have "rev ?t = takeWhile is_space (rev ?t) @ dropWhile is_space (rev ?t)" by simp
  then have "?t = rev (dropWhile is_space (rev ?t)) @ rev (takeWhile is_space (rev ?t))"
    by (metis rev_append rev_rev_ident)
  then have t: "?t = strip s @ rev (takeWhile is_space (rev ?t))"
    by (simp add: strip_def)
  have a: "\<forall>c\<in>set (takeWhile is_space s). is_space c"
    by (auto dest: set_takeWhileD)
  have b: "\<forall>c\<in>set (rev (takeWhile is_space (rev ?t))). is_space c"
    by (auto dest: set_takeWhileD)
  from s t have "s = takeWhile is_space s @ strip s @ rev (takeWhile is_space (rev ?t))"
    by metis
  with a b show ?thesis by blast
qed

lemma strip_hd: "strip s \<noteq> [] \<Longrightarrow> \<not> is_space (hd (strip s))"
proof -
  assume ne: "strip s \<noteq> []"
  let ?t = "dropWhile is_space s"
  let ?u = "dropWhile is_space (rev ?t)"
  have "?t = [] \<Longrightarrow> strip s = []" unfolding strip_def by (simp only: rev.simps dropWhile.simps)
  with ne have tne: "?t \<noteq> []" by blast
  then have h: "\<not> is_space (hd ?t)" by (rule hd_dropWhile)
  from tne have "rev ?t = rev (tl ?t) @ [hd ?t]"
    by (metis hd_Cons_tl rev.simps(2))
  then have "?u = dropWhile is_space (rev (tl ?t)) @ [hd ?t]"
    using h by (simp add: dropWhile_append3)
  then have "strip s = hd ?t # rev (dropWhile is_space (rev (tl ?t)))"
    by (simp add: strip_def)
  with h show ?thesis by simp
qed

lemma strip_last: "strip s \<noteq> [] \<Longrightarrow> \<not> is_space (last (strip s))"
proof -
  assume ne: "strip s \<noteq> []"
  let ?u = "dropWhile is_space (rev (dropWhile is_space s))"
  from ne have "?u \<noteq> []" by (simp add: strip_def)
  then have "\<not> is_space (hd ?u)" by (rule hd_dropWhile)
  moreover have "last (strip s) = hd ?u"
    using \<open>?u \<noteq> []\<close> by (simp add: strip_def last_rev)
  ultimately show ?thesis by simp
qed

lemma strip_id: "s = [] \<or> (\<not> is_space (hd s) \<and> \<not> is_space (last s)) \<Longrightarrow> strip s = s"
proof (cases "s = []")
  case True
  then show ?thesis by (simp add: strip_def)
next
  case False
  assume "s = [] \<or> (\<not> is_space (hd s) \<and> \<not> is_space (last s))"
  with False have h: "\<not> is_space (hd s)" and l: "\<not> is_space (last s)" by auto
  from False h have d: "dropWhile is_space s = s"
    by (simp add: dropWhile_eq_self_iff)
  from False l have "dropWhile is_space (rev s) = rev s"
    by (simp add: dropWhile_eq_self_iff hd_rev)
  with d show ?thesis by (simp add: strip_def)
qed

lemma strip_idem: "strip (strip s) = strip s"
  by (rule strip_id) (auto dest: strip_hd strip_last)

lemma strip_pad:
  "(\<forall>c\<in>set a. is_space c) \<Longrightarrow> (\<forall>c\<in>set b. is_space c) \<Longrightarrow> strip (a @ s @ b) = strip s"
proof -
  assume a: "\<forall>c\<in>set a. is_space c" and b: "\<forall>c\<in>set b. is_space c"
  from a have 1: "dropWhile is_space (a @ s @ b) = dropWhile is_space (s @ b)"
    by (simp add: dropWhile_append2)
  show ?thesis
  proof (cases "\<forall>c\<in>set s. is_space c")
    case True
    with a b have "\<forall>c\<in>set (a @ s @ b). is_space c" by auto
    then have "strip (a @ s @ b) = []" by (simp only: strip_Nil_iff)
    moreover from True have "strip s = []" by (simp only: strip_Nil_iff)
    ultimately show ?thesis by simp
  next
    case False
    then have 2: "dropWhile is_space (s @ b) = dropWhile is_space s @ b"
      by (auto simp: dropWhile_append1)
    from False have ne: "dropWhile is_space s \<noteq> []"
      by (auto simp: dropWhile_eq_Nil_conv)
    then have "\<exists>x\<in>set (rev (dropWhile is_space s)). \<not> is_space x"
      by (metis hd_dropWhile hd_in_set set_rev)
    then have 3: "dropWhile is_space (rev b @ rev (dropWhile is_space s))
        = dropWhile is_space (rev (dropWhile is_space s))"
      using b by (subst dropWhile_append2) auto
    show ?thesis by (simp add: strip_def 1 2 3)
  qed
qed


section \<open>Facts about the sentence splitter\<close>

lemma re_split_not_Nil: "re_split a t \<noteq> []"
  by (induction a t rule: re_split.induct) (auto split: list.splits)

lemma re_split_head:
  "re_split a (c # cs) = f # fs \<Longrightarrow>
     (if a \<and> is_space c then f = [] else f \<noteq> [] \<and> hd f = c)"
  by (auto split: list.splits if_splits)

lemma weave_Cons_hd: "weave ((c # f) # fs) seps = c # weave (f # fs) seps"
  by (cases fs; cases seps) auto

lemma re_split_weave:
  "\<exists>seps. length (re_split a t) = Suc (length seps) \<and> weave (re_split a t) seps = t \<and>
     (\<forall>s\<in>set seps. s \<noteq> [] \<and> (\<forall>c\<in>set s. is_space c))"
proof (induction a t rule: re_split.induct)
  case (1 after)
  show ?case by (rule exI [of _ "[]"]) simp
next
  case (2 after c cs)
  show ?case
  proof (cases "after \<and> is_space c")
    case True
    let ?R = "re_split False (dropWhile is_space cs)"
    from 2(1) [OF True] obtain seps where
      len: "length ?R = Suc (length seps)" and w: "weave ?R seps = dropWhile is_space cs" and
      sp: "\<forall>s\<in>set seps. s \<noteq> [] \<and> (\<forall>c\<in>set s. is_space c)" by blast
    obtain g gs where R: "?R = g # gs" using re_split_not_Nil by (cases ?R) auto
    let ?s = "c # takeWhile is_space cs"
    have "weave ([] # ?R) (?s # seps) = c # cs"
      using w by (simp add: R)
    moreover have "\<forall>x\<in>set ?s. is_space x"
      using True by (auto dest: set_takeWhileD)
    ultimately show ?thesis
      using True len sp by (intro exI [of _ "?s # seps"]) simp
  next
    case False
    let ?R = "re_split (is_terminal c) cs"
    from 2(2) [OF False] obtain seps where
      len: "length ?R = Suc (length seps)" and w: "weave ?R seps = cs" and
      sp: "\<forall>s\<in>set seps. s \<noteq> [] \<and> (\<forall>c\<in>set s. is_space c)" by blast
    obtain f fs where R: "?R = f # fs" using re_split_not_Nil by (cases ?R) auto
    have "re_split after (c # cs) = (c # f) # fs" using False R by simp
    moreover have "weave ((c # f) # fs) seps = c # cs"
      using w by (simp add: weave_Cons_hd R)
    ultimately show ?thesis
      using len sp R by (intro exI [of _ seps]) simp
  qed
qed

lemma re_split_empty_frag:
  "[] \<in> set (butlast (re_split a t)) \<Longrightarrow> a \<and> [] \<notin> set (butlast (tl (re_split a t)))"
proof (induction a t rule: re_split.induct)
  case (1 after)
  then show ?case by simp
next
  case (2 after c cs)
  show ?case
  proof (cases "after \<and> is_space c")
    case True
    let ?R = "re_split False (dropWhile is_space cs)"
    have eq: "re_split after (c # cs) = [] # ?R" using True by simp
    have "[] \<notin> set (butlast ?R)" using 2(1) [OF True] by blast
    then show ?thesis using True by (simp add: eq)
  next
    case False
    let ?R = "re_split (is_terminal c) cs"
    obtain g gs where R: "?R = g # gs" using re_split_not_Nil by (cases ?R) auto
    have eq: "re_split after (c # cs) = (c # g) # gs" using False R by simp
    from 2(3) have mem: "[] \<in> set (butlast ((c # g) # gs))" by (simp only: eq)
    then have gs: "gs \<noteq> []" and "[] \<in> set (butlast gs)" by (auto split: if_splits)
    then have "[] \<in> set (butlast ?R)" and "[] \<in> set (butlast (tl ?R))" by (simp_all add: R)
    with 2(2) [OF False] show ?thesis by blast
  qed
qed

lemma re_split_butlast:
  "f \<in> set (butlast (re_split a t)) \<Longrightarrow> f \<noteq> [] \<Longrightarrow> is_terminal (last f)"
proof (induction a t arbitrary: f rule: re_split.induct)
  case (1 after)
  then show ?case by simp
next
  case (2 after c cs)
  show ?case
  proof (cases "after \<and> is_space c")
    case True
    let ?R = "re_split False (dropWhile is_space cs)"
    have eq: "re_split after (c # cs) = [] # ?R" using True by simp
    from 2(3) have "f \<in> set (butlast ([] # ?R))" by (simp only: eq)
    with 2(4) have "f \<in> set (butlast ?R)"
      by (auto simp: re_split_not_Nil)
    from 2(1) [OF True this 2(4)] show ?thesis .
  next
    case False
    let ?R = "re_split (is_terminal c) cs"
    obtain g gs where R: "?R = g # gs" using re_split_not_Nil by (cases ?R) auto
    have eq: "re_split after (c # cs) = (c # g) # gs" using False R by simp
    from 2(3) have mem: "f \<in> set (butlast ((c # g) # gs))" by (simp only: eq)
    show ?thesis
    proof (cases "gs = []")
      case True
      with mem show ?thesis by simp
    next
      case gs: False
      with mem have "f = c # g \<or> f \<in> set (butlast gs)" by auto
      then show ?thesis
      proof
        assume f: "f = c # g"
        from gs R have g: "g \<in> set (butlast ?R)" by simp
        show ?thesis
        proof (cases "g = []")
          case True
          with g have "is_terminal c" using re_split_empty_frag by blast
          with f True show ?thesis by simp
        next
          case gne: False
          from 2(2) [OF False g gne] f gne show ?thesis by simp
        qed
      next
        assume "f \<in> set (butlast gs)"
        with gs R have "f \<in> set (butlast ?R)" by simp
        from 2(2) [OF False this 2(4)] show ?thesis .
      qed
    qed
  qed
qed

lemma re_split_tl:
  "f \<in> set (tl (re_split a t)) \<Longrightarrow> f = [] \<or> \<not> is_space (hd f)"
proof (induction a t arbitrary: f rule: re_split.induct)
  case (1 after)
  then show ?case by simp
next
  case (2 after c cs)
  show ?case
  proof (cases "after \<and> is_space c")
    case True
    let ?d = "dropWhile is_space cs"
    let ?R = "re_split False ?d"
    obtain g gs where R: "?R = g # gs" using re_split_not_Nil by (cases ?R) auto
    have eq: "re_split after (c # cs) = [] # ?R" using True by simp
    from 2(3) have "f \<in> set (tl ([] # ?R))" by (simp only: eq)
    with R have "f = g \<or> f \<in> set (tl ?R)" by auto
    then show ?thesis
    proof
      assume f: "f = g"
      show ?thesis
      proof (cases ?d)
        case Nil
        with R f show ?thesis by simp
      next
        case (Cons d ds)
        then have "\<not> is_space d" by (metis hd_dropWhile list.sel(1) list.distinct(1))
        moreover from R Cons have "re_split False (d # ds) = g # gs" by simp
        from re_split_head [OF this] have "hd g = d" by simp
        ultimately show ?thesis using f by simp
      qed
    next
      assume "f \<in> set (tl ?R)"
      from 2(1) [OF True this] show ?thesis .
    qed
  next
    case False
    let ?R = "re_split (is_terminal c) cs"
    obtain g gs where R: "?R = g # gs" using re_split_not_Nil by (cases ?R) auto
    have eq: "re_split after (c # cs) = (c # g) # gs" using False R by simp
    from 2(3) have "f \<in> set (tl ((c # g) # gs))" by (simp only: eq)
    with R have "f \<in> set (tl ?R)" by simp
    from 2(2) [OF False this] show ?thesis .
  qed
qed

lemma re_split_no_boundary: "f \<in> set (re_split a t) \<Longrightarrow> \<not> has_boundary f"
proof (induction a t arbitrary: f rule: re_split.induct)
  case (1 after)
  then show ?case by simp
next
  case (2 after c cs)
  show ?case
  proof (cases "after \<and> is_space c")
    case True
    have eq: "re_split after (c # cs) = [] # re_split False (dropWhile is_space cs)"
      using True by simp
    from 2(3) have "f \<in> set ([] # re_split False (dropWhile is_space cs))" by (simp only: eq)
    then have "f = [] \<or> f \<in> set (re_split False (dropWhile is_space cs))" by auto
    then show ?thesis using 2(1) [OF True] by auto
  next
    case False
    let ?R = "re_split (is_terminal c) cs"
    obtain g gs where R: "?R = g # gs" using re_split_not_Nil by (cases ?R) auto
    have eq: "re_split after (c # cs) = (c # g) # gs" using False R by simp
    from 2(3) have "f \<in> set ((c # g) # gs)" by (simp only: eq)
    then have "f = c # g \<or> f \<in> set gs" by auto
    then show ?thesis
    proof
      assume f: "f = c # g"
      have g: "\<not> has_boundary g" using 2(2) [OF False, of g] R by simp
      show ?thesis
      proof (cases cs)
        case Nil
        with R f show ?thesis by simp
      next
        case (Cons d ds)
        with R have "re_split (is_terminal c) (d # ds) = g # gs" by simp
        from re_split_head [OF this]
        have "g = [] \<or> (\<not> (is_terminal c \<and> is_space d) \<and> g \<noteq> [] \<and> hd g = d)"
          by (auto split: if_splits)
        then show ?thesis using f g by (cases g) auto
      qed
    next
      assume "f \<in> set gs"
      then show ?thesis using 2(2) [OF False, of f] R by simp
    qed
  qed
qed

lemma re_split_whole:
  "\<not> has_boundary t \<Longrightarrow> \<not> a \<or> t = [] \<or> \<not> is_space (hd t) \<Longrightarrow> re_split a t = [t]"
proof (induction t arbitrary: a)
  case Nil
  then show ?case by simp
next
  case (Cons c cs)
  from Cons.prems have ns: "\<not> (a \<and> is_space c)" by auto
  have "\<not> has_boundary cs" using Cons.prems(1) by (cases cs) auto
  moreover have "\<not> is_terminal c \<or> cs = [] \<or> \<not> is_space (hd cs)"
    using Cons.prems(1) by (cases cs) auto
  ultimately have "re_split (is_terminal c) cs = [cs]" by (rule Cons.IH)
  with ns show ?case by auto
qed

lemma no_terminal_no_boundary: "\<forall>c\<in>set t. \<not> is_terminal c \<Longrightarrow> \<not> has_boundary t"
  by (induction t rule: has_boundary.induct) auto

lemma split_sentences_trimmed:
  "s \<in> set (split_sentences t) \<Longrightarrow> s \<noteq> [] \<and> strip s = s"
  by (auto simp: split_sentences_def strip_idem)

lemma split_sentences_no_terminal:
  assumes "\<forall>c\<in>set t. \<not> is_terminal c"
  shows "split_sentences t = (if strip t = [] then [] else [strip t])"
proof -
  from assms have "re_split False t = [t]"
    by (intro re_split_whole no_terminal_no_boundary) auto
  then show ?thesis by (simp add: split_sentences_def)
qed

lemma split_sentences_blank:
  assumes "strip t = []"
  shows "split_sentences t = []"
proof -
  from assms have "\<forall>c\<in>set t. is_space c" by (simp only: strip_Nil_iff)
  then have "\<forall>c\<in>set t. \<not> is_terminal c" using terminal_not_space by blast
  then show ?thesis using assms by (simp add: split_sentences_no_terminal)
qed


section \<open>Facts about the paragraph splitter\<close>

lemma split_blank_not_Nil: "split_blank t \<noteq> []"
  by (induction t rule: split_blank.induct) (auto split: list.splits)

lemma split_blank_head:
  "split_blank (c # cs) = f # fs \<Longrightarrow> f = [] \<or> hd f = c"
  by (cases cs) (auto split: list.splits if_splits)

lemma split_blank_join: "join [10, 10] (split_blank t) = t"
proof (induction t rule: split_blank.induct)
  case 1
  show ?case by simp
next
  case (2 c)
  show ?case by simp
next
  case (3 c d cs)
  show ?case
  proof (cases "c = 10 \<and> d = 10")
    case True
    obtain g gs where R: "split_blank cs = g # gs"
      using split_blank_not_Nil by (cases "split_blank cs") auto
    from 3(1) [OF True] True R show ?thesis by simp
  next
    case False
    obtain g gs where R: "split_blank (d # cs) = g # gs"
      using split_blank_not_Nil by (cases "split_blank (d # cs)") auto
    have eq: "split_blank (c # d # cs) = (c # g) # gs" using False R by simp
    have "join [10, 10] ((c # g) # gs) = c # join [10, 10] (g # gs)"
      by (cases gs) auto
    with 3(2) [OF False] R show ?thesis by (simp only: eq)
  qed
qed

lemma split_blank_no_blank: "f \<in> set (split_blank t) \<Longrightarrow> \<not> has_blank f"
proof (induction t arbitrary: f rule: split_blank.induct)
  case 1
  then show ?case by simp
next
  case (2 c)
  then show ?case by simp
next
  case (3 c d cs)
  show ?case
  proof (cases "c = 10 \<and> d = 10")
    case True
    have eq: "split_blank (c # d # cs) = [] # split_blank cs" using True by simp
    from 3(3) have "f = [] \<or> f \<in> set (split_blank cs)" by (simp only: eq) auto
    then show ?thesis using 3(1) [OF True] by auto
  next
    case False
    obtain g gs where R: "split_blank (d # cs) = g # gs"
      using split_blank_not_Nil by (cases "split_blank (d # cs)") auto
    have eq: "split_blank (c # d # cs) = (c # g) # gs" using False R by simp
    from 3(3) have "f = c # g \<or> f \<in> set gs" by (simp only: eq) auto
    then show ?thesis
    proof
      assume f: "f = c # g"
      have g: "\<not> has_blank g" using 3(2) [OF False, of g] R by simp
      from split_blank_head [OF R] have "g = [] \<or> hd g = d" .
      then show ?thesis using f g False by (cases g) auto
    next
      assume "f \<in> set gs"
      then show ?thesis using 3(2) [OF False, of f] R by simp
    qed
  qed
qed

lemma has_blank_append: "has_blank b \<Longrightarrow> has_blank (a @ b @ c)"
proof (induction a)
  case Nil
  then show ?case by (induction b rule: has_blank.induct) auto
next
  case (Cons x a)
  then have "has_blank (a @ b @ c)" by simp
  then show ?case by (cases "a @ b @ c") auto
qed

lemma strip_no_blank: "\<not> has_blank p \<Longrightarrow> \<not> has_blank (strip p)"
proof -
  assume nb: "\<not> has_blank p"
  obtain a b where "p = a @ strip p @ b" using strip_decomp by blast
  then show ?thesis using nb has_blank_append by metis
qed

lemma split_blank_whole: "\<not> has_blank t \<Longrightarrow> split_blank t = [t]"
  by (induction t rule: split_blank.induct) auto

lemma split_blank_cut:
  "\<not> has_blank x \<Longrightarrow> x = [] \<or> last x \<noteq> 10 \<Longrightarrow> split_blank (x @ 10 # 10 # r) = x # split_blank r"
proof (induction x rule: split_blank.induct)
  case 1
  show ?case by simp
next
  case (2 c)
  then show ?case by simp
next
  case (3 c d cs)
  then have "\<not> (c = 10 \<and> d = 10)" and "\<not> has_blank (d # cs)" by auto
  moreover from 3(4) have "last (d # cs) \<noteq> 10" by simp
  ultimately show ?case using 3(2) by simp
qed

lemma paragraphs_trimmed:
  "p \<in> set (paragraphs_from_text t) \<Longrightarrow> p \<noteq> [] \<and> strip p = p \<and> \<not> has_blank p"
  by (auto simp: paragraphs_from_text_def strip_idem split_blank_no_blank strip_no_blank)

lemma strip_snoc_nl: "strip (q @ [10]) = strip q"
  using strip_pad [of "[]" "[10]" q] by (simp add: is_space_def)

lemma strip_cons_nl: "strip (10 # q) = strip q"
  using strip_pad [of "[10]" "[]" q] by (simp add: is_space_def)

lemma two_paragraphs:
  assumes p1: "\<not> has_blank p1" and p2: "\<not> has_blank p2"
    and n1: "strip p1 \<noteq> []" and n2: "strip p2 \<noteq> []"
  shows "paragraphs_from_text (p1 @ [10, 10] @ p2) = [strip p1, strip p2]"
proof -
  have tail: "map strip (filter (\<lambda>p. strip p \<noteq> []) (split_blank (10 # p2))) = [strip p2]"
  proof (cases p2)
    case Nil
    with n2 show ?thesis by (simp add: strip_def)
  next
    case (Cons d ds)
    show ?thesis
    proof (cases "d = 10")
      case True
      from p2 Cons True have "\<not> has_blank ds" by (cases ds) auto
      then have "split_blank ds = [ds]" by (rule split_blank_whole)
      moreover have "strip ds = strip p2" using Cons True by (simp add: strip_cons_nl)
      moreover have "strip [] = []" by (simp add: strip_def)
      ultimately show ?thesis using Cons True n2 by simp
    next
      case False
      with p2 Cons have "\<not> has_blank (10 # p2)" by simp
      then have "split_blank (10 # p2) = [10 # p2]" by (rule split_blank_whole)
      then show ?thesis using n2 by (simp add: strip_cons_nl)
    qed
  qed
  show ?thesis
  proof (cases "p1 = [] \<or> last p1 \<noteq> 10")
    case True
    with p1 have "split_blank (p1 @ 10 # 10 # p2) = p1 # split_blank p2"
      by (rule split_blank_cut)
    moreover from p2 have "split_blank p2 = [p2]" by (rule split_blank_whole)
    ultimately show ?thesis using n1 n2 by (simp add: paragraphs_from_text_def)
  next
    case False
    then obtain q where q: "p1 = q @ [10]"
      by (metis append_butlast_last_id)
    have nbq: "\<not> has_blank q"
      using p1 q has_blank_append [of q "[]" "[10]"] by auto
    have lq: "q = [] \<or> last q \<noteq> 10"
    proof (rule ccontr)
      assume "\<not> (q = [] \<or> last q \<noteq> 10)"
      then obtain r where "q = r @ [10]" by (metis append_butlast_last_id)
      with q have "p1 = r @ [10, 10] @ []" by simp
      moreover have "has_blank [10, 10]" by simp
      ultimately show False using p1 has_blank_append by metis
    qed
    have "p1 @ [10, 10] @ p2 = q @ 10 # 10 # (10 # p2)" using q by simp
    moreover have "split_blank (q @ 10 # 10 # (10 # p2)) = q # split_blank (10 # p2)"
      using nbq lq by (rule split_blank_cut)
    moreover have "strip q = strip p1" using q by (simp add: strip_snoc_nl)
    ultimately show ?thesis using n1 tail by (simp add: paragraphs_from_text_def)
  qed
qed


section \<open>Facts about the text of a document\<close>

lemma no_blank_glue:
  "10 \<notin> set a \<Longrightarrow> \<not> has_blank b \<Longrightarrow> b = [] \<or> hd b \<noteq> 10 \<Longrightarrow> a \<noteq> [] \<Longrightarrow>
     \<not> has_blank (a @ 10 # b)"
proof (induction a)
  case Nil
  then show ?case by simp
next
  case (Cons x xs)
  show ?case
  proof (cases xs)
    case Nil
    with Cons.prems show ?thesis by (cases b) auto
  next
    case ys: (Cons y ys)
    with Cons.prems have "\<not> has_blank (xs @ 10 # b)" by (intro Cons.IH) auto
    with ys Cons.prems show ?thesis by auto
  qed
qed

lemma no_nl_no_blank: "10 \<notin> set a \<Longrightarrow> \<not> has_blank a"
  by (induction a rule: has_blank.induct) auto

lemma join_nl_no_blank:
  "\<forall>p\<in>set ps. p \<noteq> [] \<and> 10 \<notin> set p \<Longrightarrow>
     \<not> has_blank (join [10] ps) \<and> (ps \<noteq> [] \<longrightarrow> join [10] ps \<noteq> [] \<and> hd (join [10] ps) \<noteq> 10)"
proof (induction "[10::nat]" ps rule: join.induct)
  case 1
  show ?case by simp
next
  case (2 x)
  then show ?case by (cases x) (auto simp: no_nl_no_blank)
next
  case (3 x y ys)
  then have ih: "\<not> has_blank (join [10] (y # ys))" "join [10] (y # ys) \<noteq> []"
    "hd (join [10] (y # ys)) \<noteq> 10" by auto
  from 3(2) have x: "x \<noteq> []" "10 \<notin> set x" by auto
  have "\<not> has_blank (x @ 10 # join [10] (y # ys))"
    using x ih by (intro no_blank_glue) auto
  moreover have "hd (x @ 10 # join [10] (y # ys)) \<noteq> 10"
    using x by (cases x) auto
  ultimately show ?case by simp
qed

lemma set_join: "p \<in> set ps \<Longrightarrow> set p \<subseteq> set (join sep ps)"
  by (induction sep ps rule: join.induct) auto

lemma nonblank_nonempty: "strip p \<noteq> [] \<Longrightarrow> p \<noteq> []"
  by (auto simp: strip_def)

lemma join_nonblank:
  assumes "ps \<noteq> []" and "\<forall>p\<in>set ps. strip p \<noteq> []"
  shows "strip (join sep ps) \<noteq> []"
proof -
  from assms obtain p where p: "p \<in> set ps" "strip p \<noteq> []" by (cases ps) auto
  then obtain c where "c \<in> set p" "\<not> is_space c" by (auto simp: strip_Nil_iff)
  with p set_join have "c \<in> set (join sep ps)" by blast
  with \<open>\<not> is_space c\<close> show ?thesis by (auto simp: strip_Nil_iff)
qed

lemma text_from_document_paragraphs:
  assumes "\<forall>p\<in>set document. 10 \<notin> set p"
  shows "paragraphs_from_text (text_from_document document) =
    (if filter (\<lambda>p. strip p \<noteq> []) document = [] then []
     else [strip (text_from_document document)])"
proof -
  let ?ps = "filter (\<lambda>p. strip p \<noteq> []) document"
  have t: "text_from_document document = join [10] ?ps"
    by (simp add: text_from_document_def)
  show ?thesis
  proof (cases "?ps = []")
    case True
    then show ?thesis
      by (simp add: t paragraphs_from_text_def strip_def)
  next
    case False
    have "\<forall>p\<in>set ?ps. p \<noteq> [] \<and> 10 \<notin> set p"
      using assms nonblank_nonempty by auto
    then have "\<not> has_blank (join [10] ?ps)" using join_nl_no_blank by blast
    then have "split_blank (join [10] ?ps) = [join [10] ?ps]" by (rule split_blank_whole)
    moreover have "strip (join [10] ?ps) \<noteq> []"
      using False by (intro join_nonblank) auto
    ultimately show ?thesis using False by (simp add: t paragraphs_from_text_def)
  qed
qed

lemma text_from_document_Nil_iff:
  "text_from_document document = [] \<longleftrightarrow> filter (\<lambda>p. strip p \<noteq> []) document = []"
proof
  assume e: "text_from_document document = []"
  show "filter (\<lambda>p. strip p \<noteq> []) document = []"
  proof (rule ccontr)
    assume "filter (\<lambda>p. strip p \<noteq> []) document \<noteq> []"
    then have "strip (join [10] (filter (\<lambda>p. strip p \<noteq> []) document)) \<noteq> []"
      by (intro join_nonblank) auto
    with e show False by (simp add: text_from_document_def strip_def)
  qed
next
  assume "filter (\<lambda>p. strip p \<noteq> []) document = []"
  then show "text_from_document document = []" by (simp add: text_from_document_def)
qed

lemma text_from_document_Cons:
  "text_from_document (p # ds) =
     (if strip p = [] then text_from_document ds
      else if filter (\<lambda>p. strip p \<noteq> []) ds = [] then p
      else p @ [10] @ text_from_document ds)"
proof -
  let ?ps = "filter (\<lambda>p. strip p \<noteq> []) ds"
  show ?thesis by (cases ?ps) (simp_all add: text_from_document_def)
qed


section \<open>Facts about the analysis\<close>

lemma sentence_entries_Inr:
  "sentence_entries sents idx results = Inr es \<Longrightarrow>
     map sentence es = take (length results) (drop idx sents) \<and>
     (results \<noteq> [] \<longrightarrow> idx + length results \<le> length sents) \<and>
     map label es = map label results \<and>
     map score es = map (\<lambda>r. score r * 100) results \<and>
     (\<forall>e\<in>set es. originality e = 100 - score e)"
proof (induction sents idx results arbitrary: es rule: sentence_entries.induct)
  case (1 sents idx)
  then show ?case by simp
next
  case (2 sents idx result results)
  from 2(2) have lt: "idx < length sents"
    by (auto split: if_splits)
  with 2(2) obtain rest where rest: "sentence_entries sents (Suc idx) results = Inr rest"
    and es: "es = \<lparr>label = label result, score = score result * 100,
                   originality = 100 - score result * 100, sentence = sents ! idx\<rparr> # rest"
    by (auto split: sum.splits)
  note ih = 2(1) [OF lt rest]
  have "drop idx sents = sents ! idx # drop (Suc idx) sents"
    using lt by (simp add: Cons_nth_drop_Suc)
  with ih es lt show ?case by (cases results) auto
qed

lemma sentence_entries_total:
  "idx + length results \<le> length sents \<Longrightarrow> \<exists>es. sentence_entries sents idx results = Inr es"
  by (induction sents idx results rule: sentence_entries.induct) auto

lemma sentence_entries_IndexError:
  "idx \<le> length sents \<Longrightarrow> length sents < idx + length results \<Longrightarrow>
     sentence_entries sents idx results = Inl IndexError"
  by (induction sents idx results rule: sentence_entries.induct) (auto split: sum.splits)

lemma load_cached:
  "load_detector_pipe pipeline w = (Inr pipe, w1) \<Longrightarrow>
     cache w1 = Some pipe \<and> calls w1 = calls w"
  by (auto simp: load_detector_pipe_def print_def Let_def split: option.splits sum.splits)

lemma load_again:
  "cache w = Some pipe \<Longrightarrow> load_detector_pipe pipeline w = (Inr pipe, w)"
  by (simp add: load_detector_pipe_def)

lemma load_calls: "calls (snd (load_detector_pipe pipeline w)) = calls w"
  by (auto simp: load_detector_pipe_def print_def Let_def split: option.splits sum.splits)

lemma load_fail:
  "cache w = None \<Longrightarrow> fst (load_detector_pipe (Inl e) w) = Inl e"
  by (simp add: load_detector_pipe_def Let_def)

lemma analyze_sentences_Inr:
  assumes "analyze_sentences pipeline text w = (Inr es, w')"
  shows "(split_sentences text = [] \<and> es = [] \<and> w' = w) \<or>
     (\<exists>pipe w1 results. split_sentences text \<noteq> [] \<and>
        load_detector_pipe pipeline w = (Inr pipe, w1) \<and>
        pipe (Batch (split_sentences text)) True 512 = Inr results \<and>
        sentence_entries (split_sentences text) 0 results = Inr es \<and>
        w' = w1\<lparr>calls := calls w1 @ [Batch (split_sentences text)]\<rparr>)"
  using assms
  by (auto simp: analyze_sentences_def call_pipe_def Let_def
      split: if_splits prod.splits sum.splits)

lemma analyze_text_Inr:
  assumes "analyze_text pipeline text w = (Inr a, w')"
  shows "\<exists>pipe w1 r0 rs. load_detector_pipe pipeline w = (Inr pipe, w1) \<and>
     pipe (Single text) True 512 = Inr (r0 # rs) \<and>
     label a = label r0 \<and> score a = score r0 * 100 \<and> originality a = 100 - score a \<and>
     text_of a = text \<and> paragraphs a = paragraphs_from_text text \<and>
     analyze_sentences pipeline text (w1\<lparr>calls := calls w1 @ [Single text]\<rparr>)
       = (Inr (sentences a), w')"
  using assms
  by (auto simp: analyze_text_def call_pipe_def Let_def
      split: prod.splits sum.splits list.splits)


lemma load_fst_cases:
  "fst (load_detector_pipe pipeline w) = (case cache w of Some pipe \<Rightarrow> Inr pipe | None \<Rightarrow> pipeline)"
  by (auto simp: load_detector_pipe_def Let_def split: option.splits sum.splits)

lemma load_pair: "load_detector_pipe pipeline w = (Inr pipe, w1) \<Longrightarrow>
   fst (load_detector_pipe pipeline w) = Inr pipe"
  by simp

lemma load_after_call:
  assumes "load_detector_pipe pipeline w = (Inr pipe, w1)"
  shows "load_detector_pipe pipeline (w1\<lparr>calls := cs\<rparr>) = (Inr pipe, w1\<lparr>calls := cs\<rparr>)"
proof -
  from assms have "cache w1 = Some pipe" using load_cached by blast
  then show ?thesis by (simp add: load_detector_pipe_def)
qed

lemma analyze_text_sentences:
  assumes "analyze_text pipeline text w = (Inr a, w')"
  shows "\<exists>pipe. fst (load_detector_pipe pipeline w) = Inr pipe \<and>
     (sentences a = [] \<or>
      (\<exists>results. split_sentences text \<noteq> [] \<and>
         pipe (Batch (split_sentences text)) True 512 = Inr results \<and>
         sentence_entries (split_sentences text) 0 results = Inr (sentences a)))"
proof -
  from analyze_text_Inr [OF assms] obtain pipe w1 where
    l: "load_detector_pipe pipeline w = (Inr pipe, w1)" and
    s: "analyze_sentences pipeline text (w1\<lparr>calls := calls w1 @ [Single text]\<rparr>)
       = (Inr (sentences a), w')" by blast
  let ?w2 = "w1\<lparr>calls := calls w1 @ [Single text]\<rparr>"
  have l2: "load_detector_pipe pipeline ?w2 = (Inr pipe, ?w2)"
    using l by (rule load_after_call)
  from analyze_sentences_Inr [OF s] l2 l show ?thesis by auto
qed

lemmas run_defs = analyze_text_def analyze_sentences_def call_pipe_def load_detector_pipe_def
  print_def stub_def w0_def split_sentences_def paragraphs_from_text_def strip_def
  is_space_def is_terminal_def py_def

lemma scenario_run:
  "analyze_text (Inr (stub scenario))
     (py ''This is obviously written by a human with quirky style!! I think so, yes.'') w0 =
   (Inr \<lparr>label = py ''Real'', score = 12, originality = 88,
      text_of = py ''This is obviously written by a human with quirky style!! I think so, yes.'',
      sentences =
        [\<lparr>label = py ''Real'', score = 10, originality = 90,
          sentence = py ''This is obviously written by a human with quirky style!!''\<rparr>,
         \<lparr>label = py ''Real'', score = 15, originality = 85,
          sentence = py ''I think so, yes.''\<rparr>],
      paragraphs = [py ''This is obviously written by a human with quirky style!! I think so, yes.'']\<rparr>,
    \<lparr>cache = Some (stub scenario),
     calls = [Single (py ''This is obviously written by a human with quirky style!! I think so, yes.''),
       Batch [py ''This is obviously written by a human with quirky style!!'', py ''I think so, yes.'']],
     stdout = [py ''Loading Model... (First time it will take time)'']\<rparr>)"
  by (simp add: run_defs scenario_def)

lemma sentence_entries_same_length:
  assumes "sentence_entries sents 0 results = Inr es"
  shows "map sentence es = take (length results) sents \<and> length es = length results"
proof -
  from sentence_entries_Inr [OF assms]
  have m: "map sentence es = take (length results) (drop 0 sents)"
    and l: "map label es = map label results" by simp_all
  from l have "length es = length results" by (metis length_map)
  with m show ?thesis by simp
qed

lemma stub_one_result_per_input:
  "fst (load_detector_pipe (Inr (stub f)) w0) = Inr pipe \<and> pipe (Batch ts) True 512 = Inr results
     \<longrightarrow> length results = length ts"
  by (auto simp: load_detector_pipe_def w0_def print_def stub_def Let_def)

lemma scenario_split:
  "split_sentences (py ''This is obviously written by a human with quirky style!! I think so, yes.'') =
     [py ''This is obviously written by a human with quirky style!!'', py ''I think so, yes.'']"
  by (simp add: split_sentences_def strip_def is_space_def is_terminal_def py_def)

lemma blank_split: "split_sentences [32, 10, 32] = []"
  by (simp add: split_sentences_def strip_def is_space_def is_terminal_def)

lemma load_w0: "load_detector_pipe (Inr p) w0 =
  (Inr p, \<lparr>cache = Some p, calls = [], stdout = [py ''Loading Model... (First time it will take time)'']\<rparr>)"
  by (simp add: load_detector_pipe_def w0_def print_def)

lemma analyze_sentences_calls:
  "\<exists>ext. calls (snd (analyze_sentences pipeline t w)) = calls w @ ext"
proof (cases "split_sentences t = []")
  case True
  then show ?thesis by (simp add: analyze_sentences_def)
next
  case False
  obtain r w1 where l: "load_detector_pipe pipeline w = (r, w1)"
    by (cases "load_detector_pipe pipeline w") auto
  then have c: "calls w1 = calls w" using load_calls [of pipeline w] by simp
  show ?thesis
  proof (cases r)
    case (Inl e)
    with False l c show ?thesis by (simp add: analyze_sentences_def)
  next
    case (Inr pipe)
    with False l c show ?thesis
      by (auto simp: analyze_sentences_def call_pipe_def Let_def split: sum.splits)
  qed
qed

lemma analyze_text_calls:
  assumes "fst (load_detector_pipe pipeline w) = Inr pipe"
  shows "\<exists>ext. calls (snd (analyze_text pipeline t w)) = calls w @ Single t # ext"
proof -
  obtain w1 where l: "load_detector_pipe pipeline w = (Inr pipe, w1)"
    using assms by (cases "load_detector_pipe pipeline w") auto
  then have c: "calls w1 = calls w" using load_calls [of pipeline w] by simp
  let ?w2 = "w1\<lparr>calls := calls w1 @ [Single t]\<rparr>"
  from analyze_sentences_calls [of pipeline t ?w2] obtain ext where
    e: "calls (snd (analyze_sentences pipeline t ?w2)) = calls w @ Single t # ext"
    using c by auto
  show ?thesis
  proof (cases "pipe (Single t) True 512")
    case (Inl e)
    with l c show ?thesis by (simp add: analyze_text_def call_pipe_def)
  next
    case (Inr results)
    show ?thesis
    proof (cases results)
      case Nil
      with Inr l c show ?thesis by (simp add: analyze_text_def call_pipe_def)
    next
      case (Cons d ds)
      with Inr l e show ?thesis
        by (auto simp: analyze_text_def call_pipe_def Let_def split: prod.splits sum.splits)
    qed
  qed
qed

lemma split_blank_subset: "f \<in> set (split_blank t) \<Longrightarrow> set f \<subseteq> set t"
  using set_join [of f "split_blank t" "[10, 10]"] by (simp add: split_blank_join)

lemma paragraphs_blank: "strip t = [] \<Longrightarrow> paragraphs_from_text t = []"
proof -
  assume "strip t = []"
  then have "\<forall>c\<in>set t. is_space c" by (simp only: strip_Nil_iff)
  then have "\<forall>f\<in>set (split_blank t). \<forall>c\<in>set f. is_space c"
    using split_blank_subset by blast
  then have "\<forall>f\<in>set (split_blank t). strip f = []" by (simp only: strip_Nil_iff)
  then show ?thesis by (simp add: paragraphs_from_text_def filter_empty_conv)
qed

lemma analyze_text_blank:
  assumes "fst (load_detector_pipe pipeline w) = Inr pipe"
    and "pipe (Single t) True 512 = Inr (d # ds)" and "strip t = []"
  shows "fst (analyze_text pipeline t w) =
    Inr \<lparr>label = label d, score = score d * 100, originality = 100 - score d * 100,
      text_of = t, sentences = [], paragraphs = []\<rparr>"
proof -
  obtain w1 where l: "load_detector_pipe pipeline w = (Inr pipe, w1)"
    using assms(1) by (cases "load_detector_pipe pipeline w") auto
  from assms(3) have "split_sentences t = []" by (rule split_sentences_blank)
  then have "analyze_sentences pipeline t (w1\<lparr>calls := calls w1 @ [Single t]\<rparr>)
    = (Inr [], w1\<lparr>calls := calls w1 @ [Single t]\<rparr>)"
    by (simp add: analyze_sentences_def)
  with l assms(2) paragraphs_blank [OF assms(3)] show ?thesis
    by (simp add: analyze_text_def call_pipe_def Let_def)
qed

lemma blank_run:
  "analyze_text (Inr (stub scenario)) [32, 10, 32] w0 =
   (Inr \<lparr>label = py ''Real'', score = 12, originality = 88, text_of = [32, 10, 32],
      sentences = [], paragraphs = []\<rparr>,
    \<lparr>cache = Some (stub scenario), calls = [Single [32, 10, 32]],
     stdout = [py ''Loading Model... (First time it will take time)'']\<rparr>)"
  by (simp add: run_defs scenario_def)

lemma empty_run:
  "analyze_text (Inr (stub scenario)) [] w0 =
   (Inr \<lparr>label = py ''Real'', score = 12, originality = 88, text_of = [],
      sentences = [], paragraphs = []\<rparr>,
    \<lparr>cache = Some (stub scenario), calls = [Single []],
     stdout = [py ''Loading Model... (First time it will take time)'']\<rparr>)"
  by (simp add: run_defs scenario_def)


lemma analyze_text_returns:
  assumes l: "fst (load_detector_pipe pipeline w) = Inr pipe"
    and p: "pipe (Single t) True 512 = Inr (d # ds)"
    and b: "pipe (Batch (split_sentences t)) True 512 = Inr results"
    and n: "length results \<le> length (split_sentences t)"
  shows "\<exists>a w'. analyze_text pipeline t w = (Inr a, w')"
proof -
  obtain w1 where l1: "load_detector_pipe pipeline w = (Inr pipe, w1)"
    using l by (cases "load_detector_pipe pipeline w") auto
  let ?w2 = "w1\<lparr>calls := calls w1 @ [Single t]\<rparr>"
  have l2: "load_detector_pipe pipeline ?w2 = (Inr pipe, ?w2)"
    using l1 by (rule load_after_call)
  from n obtain es where es: "sentence_entries (split_sentences t) 0 results = Inr es"
    using sentence_entries_total [of 0 results "split_sentences t"] by auto
  have "\<exists>ss w3. analyze_sentences pipeline t ?w2 = (Inr ss, w3)"
    using l2 b es by (simp add: analyze_sentences_def call_pipe_def Let_def)
  then obtain ss w3 where "analyze_sentences pipeline t ?w2 = (Inr ss, w3)" by blast
  with l1 p show ?thesis
    by (simp add: analyze_text_def call_pipe_def Let_def)
qed


section \<open>Facts about the console summary and the report\<close>

lemma dec_digits: "c \<in> set (dec n) \<Longrightarrow> 48 \<le> c \<and> c \<le> 57"
proof (induction n arbitrary: c rule: dec.induct)
  case (1 n)
  show ?case
  proof (cases "n < 10")
    case True
    with 1(2) show ?thesis by (simp add: dec.simps [of n])
  next
    case False
    with 1(2) have "c \<in> set (dec (n div 10)) \<or> c = 48 + n mod 10"
      by (auto simp add: dec.simps [of n])
    then show ?thesis
    proof
      assume "c \<in> set (dec (n div 10))"
      with 1(1) False show ?thesis by simp
    next
      assume "c = 48 + n mod 10"
      moreover have "n mod 10 < 10" by simp
      ultimately show ?thesis by linarith
    qed
  qed
qed

lemma format_2f_shape:
  "\<exists>sign ds d e. format_2f x = sign @ ds @ [46, d, e] \<and>
     (sign = [] \<or> sign = [45]) \<and> ds \<noteq> [] \<and>
     (\<forall>c\<in>set (ds @ [d, e]). 48 \<le> c \<and> c \<le> 57)"
proof -
  let ?n = "nat (round_half_even (\<bar>x\<bar> * 100))"
  let ?sign = "if x < 0 then [45] else []"
  let ?ds = "dec (?n div 100)"
  let ?d = "48 + ?n mod 100 div 10"
  let ?e = "48 + ?n mod 10"
  have f: "format_2f x = ?sign @ ?ds @ [46, ?d, ?e]"
    by (simp add: format_2f_def Let_def)
  have ne: "?ds \<noteq> []" by (subst dec.simps) simp
  have "?n mod 100 div 10 < 10" by (simp add: less_mult_imp_div_less)
  then have d: "48 \<le> ?d \<and> ?d \<le> 57" by linarith
  have "?n mod 10 < 10" by simp
  then have e: "48 \<le> ?e \<and> ?e \<le> 57" by linarith
  have "\<forall>c\<in>set (?ds @ [?d, ?e]). 48 \<le> c \<and> c \<le> 57"
    using dec_digits d e by auto
  with f ne show ?thesis by (intro exI [of _ ?sign] exI [of _ ?ds] exI [of _ ?d] exI [of _ ?e]) simp
qed

lemma template_follows_thresholds:
  "template_interpretation a = template_message (spec_tier (label a) (score a))"
  by (simp add: template_interpretation_def spec_tier_def)

lemma detect_ai_content_lines:
  assumes "analyze_text pipeline t w = (Inr a, w1)"
  shows "detect_ai_content pipeline t w =
    (Inr a, w1\<lparr>stdout := stdout w1 @ ([10] @ py ''--- Analysis Result ---'') #
       (if label a = py ''Fake'' then
          [[128308] @ py '' ALERT: This text is likely AI Generated!'',
           py ''Confidence Score: '' @ format_2f (score a) @ py ''%'',
           console_message (if score a > 98 then TopTier else if score a > 90 then MidTier else BasicTool)]
        else
          [console_message HumanWritten,
           py ''Confidence Score: '' @ format_2f (score a) @ py ''%''])\<rparr>)"
  using assms by (simp add: detect_ai_content_def print_def Let_def)

lemma stub_run_pair:
  "analyze_text (Inr (stub (\<lambda>t. r))) (py ''Some text'') w0 =
     (Inr \<lparr>label = label r, score = score r * 100, originality = 100 - score r * 100,
       text_of = py ''Some text'',
       sentences = [\<lparr>label = label r, score = score r * 100, originality = 100 - score r * 100,
          sentence = py ''Some text''\<rparr>],
       paragraphs = [py ''Some text'']\<rparr>,
      \<lparr>cache = Some (stub (\<lambda>t. r)),
       calls = [Single (py ''Some text''), Batch [py ''Some text'']],
       stdout = [py ''Loading Model... (First time it will take time)'']\<rparr>)"
  by (simp add: run_defs Let_def)

lemma format_99: "format_2f 99 = py ''99.00''" "format_2f (199 / 2) = py ''99.50''"
  by (simp_all add: format_2f_def round_half_even_def dec.simps py_def)









section \<open>Segmentation claims\<close>

text \<open>
  C6. For every text, the sentence splitter cuts exactly at the runs of white space that
  directly follow a terminal mark (\<^verbatim>\<open>.\<close>, \<^verbatim>\<open>!\<close> or \<^verbatim>\<open>?\<close>): the fragments and the
  separators cut out between them give the text back, every separator is a non-empty run
  of white space, the fragment before a separator ends with a terminal mark, the fragment
  behind it does not start with white space (the whole run was taken), and no fragment
  still holds a terminal mark followed by white space. Each fragment is trimmed and the
  empty ones are dropped. A text without terminal mark that is not blank gives the single
  sentence of the trimmed text, and an empty or blank text gives no sentence.
\<close>

theorem split_sentences_cuts_after_terminal_marks:
  "(\<exists>seps. length (re_split False t) = Suc (length seps) \<and>
      weave (re_split False t) seps = t \<and>
      (\<forall>s\<in>set seps. s \<noteq> [] \<and> (\<forall>c\<in>set s. is_space c))) \<and>
   (\<forall>f\<in>set (butlast (re_split False t)). f \<noteq> [] \<and> is_terminal (last f)) \<and>
   (\<forall>f\<in>set (tl (re_split False t)). f = [] \<or> \<not> is_space (hd f)) \<and>
   (\<forall>f\<in>set (re_split False t). \<not> has_boundary f) \<and>
   split_sentences t = map strip (filter (\<lambda>s. strip s \<noteq> []) (re_split False t)) \<and>
   (\<forall>s\<in>set (split_sentences t). s \<noteq> [] \<and> strip s = s) \<and>
   ((\<forall>c\<in>set t. \<not> is_terminal c) \<and> strip t \<noteq> [] \<longrightarrow> split_sentences t = [strip t]) \<and>
   (strip t = [] \<longrightarrow> split_sentences t = [])"
proof -
  have "\<forall>f\<in>set (butlast (re_split False t)). f \<noteq> [] \<and> is_terminal (last f)"
    using re_split_empty_frag [of False t] re_split_butlast [of _ False t] by blast
  moreover have "\<forall>f\<in>set (tl (re_split False t)). f = [] \<or> \<not> is_space (hd f)"
    using re_split_tl by blast
  moreover have "\<forall>f\<in>set (re_split False t). \<not> has_boundary f"
    using re_split_no_boundary by blast
  moreover have "\<forall>s\<in>set (split_sentences t). s \<noteq> [] \<and> strip s = s"
    using split_sentences_trimmed by blast
  moreover have "(\<forall>c\<in>set t. \<not> is_terminal c) \<and> strip t \<noteq> [] \<longrightarrow> split_sentences t = [strip t]"
    by (simp add: split_sentences_no_terminal)
  moreover have "strip t = [] \<longrightarrow> split_sentences t = []"
    by (simp add: split_sentences_blank)
  moreover have "split_sentences t = map strip (filter (\<lambda>s. strip s \<noteq> []) (re_split False t))"
    by (simp add: split_sentences_def)
  ultimately show ?thesis using re_split_weave [of False t] by blast
qed

theorem split_sentences_cuts_after_terminal_marks_witness:
  "re_split False (py ''Hi there!  How are you? fine.ok. '') =
     [py ''Hi there!'', py ''How are you?'', py ''fine.ok.'', []] \<and>
   set (butlast (re_split False (py ''Hi there!  How are you? fine.ok. ''))) \<noteq> {} \<and>
   \<not> (\<exists>f\<in>set (butlast (re_split False (py ''Hi there!  How are you? fine.ok. ''))).
      f = [] \<or> \<not> is_terminal (last f)) \<and>
   split_sentences (py ''Hi there!  How are you? fine.ok. '') =
     [py ''Hi there!'', py ''How are you?'', py ''fine.ok.''] \<and>
   \<not> (\<exists>c\<in>set (py '' no end mark ''). is_terminal c) \<and> strip (py '' no end mark '') \<noteq> [] \<and>
   split_sentences (py '' no end mark '') = [py ''no end mark''] \<and>
   strip [9, 32, 10] = [] \<and> split_sentences [9, 32, 10] = []"
  using split_sentences_cuts_after_terminal_marks [of "py ''Hi there!  How are you? fine.ok. ''"]
    split_sentences_cuts_after_terminal_marks [of "py '' no end mark ''"]
    split_sentences_cuts_after_terminal_marks [of "[9, 32, 10]"]
  by (simp add: split_sentences_def strip_def is_space_def is_terminal_def py_def)

text \<open>
  C7. For every text, the paragraph splitter cuts at each blank line (two consecutive
  line feeds): joining the pieces with a blank line gives the text back and no piece
  holds a blank line. Each piece is trimmed and the empty ones are dropped, so every
  paragraph is non-empty, trimmed and free of the separator. A text made of two
  paragraphs (neither blank, neither holding a blank line) with a blank line between them
  gives exactly the two trimmed paragraphs, and the \<open>paragraphs\<close> field of an analysis is
  the result of the splitter on the analysed text.
\<close>

theorem paragraphs_from_text_breaks_at_blank_lines:
  "join [10, 10] (split_blank t) = t \<and>
   (\<forall>f\<in>set (split_blank t). \<not> has_blank f) \<and>
   paragraphs_from_text t = map strip (filter (\<lambda>p. strip p \<noteq> []) (split_blank t)) \<and>
   (\<forall>p\<in>set (paragraphs_from_text t). p \<noteq> [] \<and> strip p = p \<and> \<not> has_blank p) \<and>
   (\<not> has_blank pa \<and> \<not> has_blank pb \<and> strip pa \<noteq> [] \<and> strip pb \<noteq> [] \<longrightarrow>
      paragraphs_from_text (pa @ [10, 10] @ pb) = [strip pa, strip pb] \<and>
      length (paragraphs_from_text (pa @ [10, 10] @ pb)) = 2) \<and>
   (analyze_text pipeline t w = (Inr a, w') \<longrightarrow> paragraphs a = paragraphs_from_text t)"
proof -
  have "\<forall>f\<in>set (split_blank t). \<not> has_blank f"
    using split_blank_no_blank by blast
  moreover have "\<forall>p\<in>set (paragraphs_from_text t). p \<noteq> [] \<and> strip p = p \<and> \<not> has_blank p"
    using paragraphs_trimmed by blast
  moreover have "\<not> has_blank pa \<and> \<not> has_blank pb \<and> strip pa \<noteq> [] \<and> strip pb \<noteq> [] \<longrightarrow>
      paragraphs_from_text (pa @ [10, 10] @ pb) = [strip pa, strip pb] \<and>
      length (paragraphs_from_text (pa @ [10, 10] @ pb)) = 2"
    using two_paragraphs [of pa pb] by simp
  moreover have "analyze_text pipeline t w = (Inr a, w') \<longrightarrow> paragraphs a = paragraphs_from_text t"
    using analyze_text_Inr by blast
  moreover have "paragraphs_from_text t = map strip (filter (\<lambda>p. strip p \<noteq> []) (split_blank t))"
    by (simp add: paragraphs_from_text_def)
  ultimately show ?thesis using split_blank_join [of t] by blast
qed

theorem paragraphs_from_text_breaks_at_blank_lines_witness:
  "\<not> has_blank (py '' Intro here. '') \<and> \<not> has_blank (py ''Second'' @ [10] @ py ''part.'' @ [10]) \<and>
   strip (py '' Intro here. '') \<noteq> [] \<and> strip (py ''Second'' @ [10] @ py ''part.'' @ [10]) \<noteq> [] \<and>
   paragraphs_from_text (py '' Intro here. '' @ [10, 10] @ (py ''Second'' @ [10] @ py ''part.'' @ [10])) =
     [py ''Intro here.'', py ''Second'' @ [10] @ py ''part.''] \<and>
   set (split_blank (py ''a'' @ [10, 10, 10] @ py ''b'')) = {py ''a'', [10] @ py ''b''} \<and>
   paragraphs (projr (fst (analyze_text (Inr (stub (\<lambda>t. \<lparr>label = py ''Real'', score = 0.12\<rparr>))) (py ''a'' @ [10, 10, 10] @ py ''b'') w0)))
     = [py ''a'', py ''b'']"
  using paragraphs_from_text_breaks_at_blank_lines
    [where t = "py ''a'' @ [10, 10, 10] @ py ''b''" and pa = "py '' Intro here. ''"
       and pb = "py ''Second'' @ [10] @ py ''part.'' @ [10]"
       and pipeline = "Inr (stub (\<lambda>t. \<lparr>label = py ''Real'', score = 0.12\<rparr>))" and w = w0
       and a = "projr (fst (analyze_text (Inr (stub (\<lambda>t. \<lparr>label = py ''Real'', score = 0.12\<rparr>))) (py ''a'' @ [10, 10, 10] @ py ''b'') w0))"
       and w' = "snd (analyze_text (Inr (stub (\<lambda>t. \<lparr>label = py ''Real'', score = 0.12\<rparr>))) (py ''a'' @ [10, 10, 10] @ py ''b'') w0)"]
  by (simp add: analyze_text_def analyze_sentences_def call_pipe_def load_detector_pipe_def
      print_def stub_def w0_def split_sentences_def paragraphs_from_text_def strip_def
      is_space_def is_terminal_def py_def)

text \<open>
  C10. The text of a Word document is its non-blank paragraph texts joined by a single
  line feed: blank paragraphs are skipped, and a non-blank one is followed by a line feed
  exactly when another non-blank one comes after it. Hence, for a document whose
  paragraph texts hold no line feed, the paragraph splitter finds at most one paragraph
  in the extracted text: exactly one, the whole trimmed text, when the extracted text is
  not empty, and so fewer entries than the document has non-blank paragraphs as soon as
  it has two. \<open>read_docx_file\<close> returns that text for a document it could open.
\<close>

theorem text_from_document_yields_one_paragraph:
  "text_from_document [] = [] \<and>
   text_from_document (p # ds) =
     (if strip p = [] then text_from_document ds
      else if filter (\<lambda>q. strip q \<noteq> []) ds = [] then p
      else p @ [10] @ text_from_document ds) \<and>
   ((\<forall>q\<in>set document. 10 \<notin> set q) \<longrightarrow>
      length (paragraphs_from_text (text_from_document document)) \<le> 1 \<and>
      (text_from_document document \<noteq> [] \<longrightarrow>
         paragraphs_from_text (text_from_document document) = [strip (text_from_document document)]) \<and>
      (text_from_document document = [] \<longrightarrow>
         paragraphs_from_text (text_from_document document) = []) \<and>
      (2 \<le> length (filter (\<lambda>q. strip q \<noteq> []) document) \<longrightarrow>
         length (paragraphs_from_text (text_from_document document))
           < length (filter (\<lambda>q. strip q \<noteq> []) document))) \<and>
   (Document path = Inr document \<longrightarrow>
      read_docx_file Document path = Inr (text_from_document document))"
proof -
  have 1: "text_from_document [] = []" by (simp add: text_from_document_def)
  have 2: "text_from_document (p # ds) =
     (if strip p = [] then text_from_document ds
      else if filter (\<lambda>q. strip q \<noteq> []) ds = [] then p
      else p @ [10] @ text_from_document ds)"
    by (rule text_from_document_Cons)
  have 3: "(\<forall>q\<in>set document. 10 \<notin> set q) \<longrightarrow>
      length (paragraphs_from_text (text_from_document document)) \<le> 1 \<and>
      (text_from_document document \<noteq> [] \<longrightarrow>
         paragraphs_from_text (text_from_document document) = [strip (text_from_document document)]) \<and>
      (text_from_document document = [] \<longrightarrow>
         paragraphs_from_text (text_from_document document) = []) \<and>
      (2 \<le> length (filter (\<lambda>q. strip q \<noteq> []) document) \<longrightarrow>
         length (paragraphs_from_text (text_from_document document))
           < length (filter (\<lambda>q. strip q \<noteq> []) document))"
  proof
    assume "\<forall>q\<in>set document. 10 \<notin> set q"
    then have eq: "paragraphs_from_text (text_from_document document) =
      (if filter (\<lambda>p. strip p \<noteq> []) document = [] then []
       else [strip (text_from_document document)])"
      by (rule text_from_document_paragraphs)
    show "length (paragraphs_from_text (text_from_document document)) \<le> 1 \<and>
      (text_from_document document \<noteq> [] \<longrightarrow>
         paragraphs_from_text (text_from_document document) = [strip (text_from_document document)]) \<and>
      (text_from_document document = [] \<longrightarrow>
         paragraphs_from_text (text_from_document document) = []) \<and>
      (2 \<le> length (filter (\<lambda>q. strip q \<noteq> []) document) \<longrightarrow>
         length (paragraphs_from_text (text_from_document document))
           < length (filter (\<lambda>q. strip q \<noteq> []) document))"
      using eq text_from_document_Nil_iff [of document] by (auto split: if_splits)
  qed
  have 4: "Document path = Inr document \<longrightarrow>
      read_docx_file Document path = Inr (text_from_document document)"
    by (simp add: read_docx_file_def)
  from 1 2 3 4 show ?thesis by blast
qed

theorem text_from_document_yields_one_paragraph_witness:
  "\<not> (\<exists>q\<in>set [py ''Title'', py ''  '', py ''First paragraph.'', py ''Second paragraph.'']. 10 \<in> set q) \<and>
   text_from_document [py ''Title'', py ''  '', py ''First paragraph.'', py ''Second paragraph.'']
     = py ''Title'' @ [10] @ py ''First paragraph.'' @ [10] @ py ''Second paragraph.'' \<and>
   length (filter (\<lambda>q. strip q \<noteq> [])
     [py ''Title'', py ''  '', py ''First paragraph.'', py ''Second paragraph.'']) = 3 \<and>
   paragraphs_from_text
     (text_from_document [py ''Title'', py ''  '', py ''First paragraph.'', py ''Second paragraph.''])
     = [py ''Title'' @ [10] @ py ''First paragraph.'' @ [10] @ py ''Second paragraph.''] \<and>
   read_docx_file (\<lambda>path. Inr [py ''Title'', py ''  '', py ''First paragraph.'', py ''Second paragraph.''])
     (py ''essay.docx'')
     = Inr (py ''Title'' @ [10] @ py ''First paragraph.'' @ [10] @ py ''Second paragraph.'')"
  using text_from_document_yields_one_paragraph
    [where document = "[py ''Title'', py ''  '', py ''First paragraph.'', py ''Second paragraph.'']"
       and p = "py ''Title''" and ds = "[py ''  '', py ''First paragraph.'', py ''Second paragraph.'']"
       and Document = "\<lambda>path. Inr [py ''Title'', py ''  '', py ''First paragraph.'', py ''Second paragraph.'']"
       and path = "py ''essay.docx''"]
  by (simp add: text_from_document_def read_docx_file_def paragraphs_from_text_def strip_def
      is_space_def py_def)


section \<open>Analysis claims\<close>

text \<open>
  C4. Whenever the analysis of a text returns a result, its originality is 100 minus its
  score, and the same holds for every entry of its sentences. (Both fields are computed
  from the same product, so the identity does not depend on rounding.) And the analysis
  does return a result when the model is loaded or loads, the classifier answers the
  call on the text with at least one result and the call on the sentences with no more
  results than sentences.
\<close>

theorem originality_is_complement_of_score:
  "(analyze_text pipeline t w = (Inr a, w') \<longrightarrow>
      originality a = 100 - score a \<and>
      (\<forall>s\<in>set (sentences a). originality s = 100 - score s)) \<and>
   (fst (load_detector_pipe pipeline w) = Inr pipe \<and>
    pipe (Single t) True 512 = Inr (d # ds) \<and>
    pipe (Batch (split_sentences t)) True 512 = Inr results \<and>
    length results \<le> length (split_sentences t) \<longrightarrow>
      (\<exists>r v. analyze_text pipeline t w = (Inr r, v)))"
proof -
  have 1: "analyze_text pipeline t w = (Inr a, w') \<longrightarrow>
      originality a = 100 - score a \<and>
      (\<forall>s\<in>set (sentences a). originality s = 100 - score s)"
  proof
    assume r: "analyze_text pipeline t w = (Inr a, w')"
    from analyze_text_Inr [OF r] have d: "originality a = 100 - score a" by blast
    from analyze_text_sentences [OF r] have
      "sentences a = [] \<or> (\<exists>sents results. sentence_entries sents 0 results = Inr (sentences a))"
      by blast
    then have "\<forall>s\<in>set (sentences a). originality s = 100 - score s"
      using sentence_entries_Inr by fastforce
    with d show "originality a = 100 - score a \<and>
      (\<forall>s\<in>set (sentences a). originality s = 100 - score s)" by simp
  qed
  have 2: "fst (load_detector_pipe pipeline w) = Inr pipe \<and>
    pipe (Single t) True 512 = Inr (d # ds) \<and>
    pipe (Batch (split_sentences t)) True 512 = Inr results \<and>
    length results \<le> length (split_sentences t) \<longrightarrow>
      (\<exists>r v. analyze_text pipeline t w = (Inr r, v))"
    using analyze_text_returns by blast
  from 1 2 show ?thesis by blast
qed

theorem originality_is_complement_of_score_witness:
  "originality (projr (fst (analyze_text (Inr (stub scenario))
     (py ''This is obviously written by a human with quirky style!! I think so, yes.'') w0))) = 88 \<and>
   score (projr (fst (analyze_text (Inr (stub scenario))
     (py ''This is obviously written by a human with quirky style!! I think so, yes.'') w0))) = 12 \<and>
   map originality (sentences (projr (fst (analyze_text (Inr (stub scenario))
     (py ''This is obviously written by a human with quirky style!! I think so, yes.'') w0)))) = [90, 85] \<and>
   map score (sentences (projr (fst (analyze_text (Inr (stub scenario))
     (py ''This is obviously written by a human with quirky style!! I think so, yes.'') w0)))) = [10, 15] \<and>
   \<not> isl (fst (analyze_text (Inr (stub scenario))
     (py ''This is obviously written by a human with quirky style!! I think so, yes.'') w0))"
proof -
  let ?T = "py ''This is obviously written by a human with quirky style!! I think so, yes.''"
  let ?X = "analyze_text (Inr (stub scenario)) ?T w0"
  note T = originality_is_complement_of_score
    [where pipeline = "Inr (stub scenario)" and t = ?T and w = w0 and pipe = "stub scenario"
       and a = "projr (fst ?X)" and w' = "snd ?X" and d = "scenario ?T" and ds = "[]"
       and results = "map scenario (split_sentences ?T)"]
  have l: "fst (load_detector_pipe (Inr (stub scenario)) w0) = Inr (stub scenario)"
    by (simp add: load_w0)
  have p: "stub scenario (Single ?T) True 512 = Inr [scenario ?T]"
    "stub scenario (Batch (split_sentences ?T)) True 512 = Inr (map scenario (split_sentences ?T))"
    by (simp_all add: stub_def)
  from T l p have "\<exists>r v. ?X = (Inr r, v)" by simp
  then have e: "\<not> isl (fst ?X)" by auto
  have run: "?X = (Inr (projr (fst ?X)), snd ?X)" by (simp add: scenario_run)
  with T have "originality (projr (fst ?X)) = 100 - score (projr (fst ?X))" by blast
  with e show ?thesis by (simp add: scenario_run)
qed

text \<open>
  C5. The sentence entries follow the fragments of the sentence splitter: when the
  splitter returns nothing, the list is empty, no error is raised and the classifier is
  not even loaded; otherwise the sentences of the entries are, in order, the first
  fragments of the splitter, and all of them, one entry per fragment, when the
  classifier keeps its contract of returning one result per input. The same holds for
  the \<open>sentences\<close> field of an analysis.
\<close>

theorem sentences_follow_split_sentences:
  "(split_sentences t = [] \<longrightarrow> analyze_sentences pipeline t w = (Inr [], w)) \<and>
   (analyze_sentences pipeline t w = (Inr es, w') \<longrightarrow>
      map sentence es = take (length es) (split_sentences t)) \<and>
   (analyze_sentences pipeline t w = (Inr es, w') \<and>
    (\<forall>pipe results. fst (load_detector_pipe pipeline w) = Inr pipe \<and>
        pipe (Batch (split_sentences t)) True 512 = Inr results \<longrightarrow>
        length results = length (split_sentences t)) \<longrightarrow>
      map sentence es = split_sentences t \<and> length es = length (split_sentences t)) \<and>
   (analyze_text pipeline t w = (Inr a, w'') \<and>
    (\<forall>pipe results. fst (load_detector_pipe pipeline w) = Inr pipe \<and>
        pipe (Batch (split_sentences t)) True 512 = Inr results \<longrightarrow>
        length results = length (split_sentences t)) \<longrightarrow>
      map sentence (sentences a) = split_sentences t \<and>
      length (sentences a) = length (split_sentences t))"
proof -
  let ?contract = "\<forall>pipe results. fst (load_detector_pipe pipeline w) = Inr pipe \<and>
        pipe (Batch (split_sentences t)) True 512 = Inr results \<longrightarrow>
        length results = length (split_sentences t)"
  have 1: "split_sentences t = [] \<longrightarrow> analyze_sentences pipeline t w = (Inr [], w)"
    by (simp add: analyze_sentences_def)
  have 2: "analyze_sentences pipeline t w = (Inr es, w') \<longrightarrow>
      map sentence es = take (length es) (split_sentences t)"
  proof
    assume r: "analyze_sentences pipeline t w = (Inr es, w')"
    from analyze_sentences_Inr [OF r] show "map sentence es = take (length es) (split_sentences t)"
      using sentence_entries_same_length by fastforce
  qed
  have 3: "analyze_sentences pipeline t w = (Inr es, w') \<and> ?contract \<longrightarrow>
      map sentence es = split_sentences t \<and> length es = length (split_sentences t)"
  proof
    assume h: "analyze_sentences pipeline t w = (Inr es, w') \<and> ?contract"
    then have r: "analyze_sentences pipeline t w = (Inr es, w')" and c: ?contract by blast+
    from analyze_sentences_Inr [OF r]
    show "map sentence es = split_sentences t \<and> length es = length (split_sentences t)"
    proof
      assume "split_sentences t = [] \<and> es = [] \<and> w' = w"
      then show ?thesis by simp
    next
      assume "\<exists>pipe w1 results. split_sentences t \<noteq> [] \<and>
        load_detector_pipe pipeline w = (Inr pipe, w1) \<and>
        pipe (Batch (split_sentences t)) True 512 = Inr results \<and>
        sentence_entries (split_sentences t) 0 results = Inr es \<and>
        w' = w1\<lparr>calls := calls w1 @ [Batch (split_sentences t)]\<rparr>"
      then obtain pipe w1 results where
        l: "load_detector_pipe pipeline w = (Inr pipe, w1)" and
        p: "pipe (Batch (split_sentences t)) True 512 = Inr results" and
        e: "sentence_entries (split_sentences t) 0 results = Inr es" by blast
      from l have "fst (load_detector_pipe pipeline w) = Inr pipe" by simp
      with c p have "length results = length (split_sentences t)" by blast
      with sentence_entries_same_length [OF e] show ?thesis by simp
    qed
  qed
  have 4: "analyze_text pipeline t w = (Inr a, w'') \<and> ?contract \<longrightarrow>
      map sentence (sentences a) = split_sentences t \<and>
      length (sentences a) = length (split_sentences t)"
  proof
    assume h: "analyze_text pipeline t w = (Inr a, w'') \<and> ?contract"
    then have r: "analyze_text pipeline t w = (Inr a, w'')" and c: ?contract by blast+
    from analyze_text_Inr [OF r] obtain pipe w1 where
      l: "load_detector_pipe pipeline w = (Inr pipe, w1)" and
      s: "analyze_sentences pipeline t (w1\<lparr>calls := calls w1 @ [Single t]\<rparr>)
         = (Inr (sentences a), w'')" by blast
    let ?w2 = "w1\<lparr>calls := calls w1 @ [Single t]\<rparr>"
    have l2: "load_detector_pipe pipeline ?w2 = (Inr pipe, ?w2)"
      using l by (rule load_after_call)
    from analyze_sentences_Inr [OF s]
    show "map sentence (sentences a) = split_sentences t \<and>
      length (sentences a) = length (split_sentences t)"
    proof
      assume "split_sentences t = [] \<and> sentences a = [] \<and> w'' = ?w2"
      then show ?thesis by simp
    next
      assume "\<exists>pipe w1a results. split_sentences t \<noteq> [] \<and>
        load_detector_pipe pipeline ?w2 = (Inr pipe, w1a) \<and>
        pipe (Batch (split_sentences t)) True 512 = Inr results \<and>
        sentence_entries (split_sentences t) 0 results = Inr (sentences a) \<and>
        w'' = w1a\<lparr>calls := calls w1a @ [Batch (split_sentences t)]\<rparr>"
      then obtain results where
        p: "pipe (Batch (split_sentences t)) True 512 = Inr results" and
        e: "sentence_entries (split_sentences t) 0 results = Inr (sentences a)"
        using l2 by auto
      from l have "fst (load_detector_pipe pipeline w) = Inr pipe" by simp
      with c p have "length results = length (split_sentences t)" by blast
      with sentence_entries_same_length [OF e] show ?thesis by simp
    qed
  qed
  from 1 2 3 4 show ?thesis by blast
qed

theorem sentences_follow_split_sentences_witness:
  "split_sentences [32, 10, 32] = [] \<and>
   analyze_sentences (Inl (Raised (py ''OSError''))) [32, 10, 32] w0 = (Inr [], w0) \<and>
   split_sentences (py ''This is obviously written by a human with quirky style!! I think so, yes.'') =
     [py ''This is obviously written by a human with quirky style!!'', py ''I think so, yes.''] \<and>
   map sentence (sentences (projr (fst (analyze_text (Inr (stub scenario))
     (py ''This is obviously written by a human with quirky style!! I think so, yes.'') w0)))) =
     [py ''This is obviously written by a human with quirky style!!'', py ''I think so, yes.'']"
proof -
  let ?T = "py ''This is obviously written by a human with quirky style!! I think so, yes.''"
  let ?X = "analyze_text (Inr (stub scenario)) ?T w0"
  have run: "?X = (Inr (projr (fst ?X)), snd ?X)"
    by (simp add: scenario_run)
  have a: "analyze_sentences (Inl (Raised (py ''OSError''))) [32, 10, 32] w0 = (Inr [], w0)"
    using sentences_follow_split_sentences
      [where t = "[32, 10, 32]" and pipeline = "Inl (Raised (py ''OSError''))" and w = w0]
      blank_split by blast
  have b: "map sentence (sentences (projr (fst ?X))) = split_sentences ?T"
    using sentences_follow_split_sentences
      [where t = ?T and pipeline = "Inr (stub scenario)" and w = w0
         and a = "projr (fst ?X)" and w'' = "snd ?X"]
      run stub_one_result_per_input [of scenario _ "split_sentences ?T"] by blast
  from a b show ?thesis by (simp add: scenario_split blank_split)
qed

text \<open>
  C9 as stated fails: no distinct condition for an unavailable classifier exists. A
  classifier that raises IndexError ends the analysis exactly as a classifier that
  answers with an empty list does (\<^verbatim>\<open>result[0]\<close> raises IndexError), and a failure
  to load and a failure in the call surface as two different exceptions, each the one
  that was raised.
\<close>

theorem classifier_failure_has_no_distinct_condition_counterexample:
  "fst (analyze_text (Inr (flaky (\<lambda>inp. True) IndexError scenario)) (py ''Some text. More.'') w0)
     = Inl IndexError \<and>
   fst (analyze_text (Inr (\<lambda>inp truncation max_length. Inr [])) (py ''Some text. More.'') w0)
     = Inl IndexError \<and>
   fst (analyze_text (Inl (Raised (py ''OSError''))) (py ''Some text. More.'') w0)
     = Inl (Raised (py ''OSError'')) \<and>
   fst (analyze_text (Inr (flaky (\<lambda>inp. True) (Raised (py ''RuntimeError'')) scenario))
     (py ''Some text. More.'') w0) = Inl (Raised (py ''RuntimeError'')) \<and>
   Raised (py ''OSError'') \<noteq> Raised (py ''RuntimeError'')"
  by (simp add: analyze_text_def call_pipe_def load_detector_pipe_def print_def w0_def flaky_def
      Let_def) (simp add: py_def)

text \<open>
  C9, as amended. A failure of the classification capability is surfaced as the very
  exception that was raised, neither caught nor wrapped, and is never replaced by a
  default result: when loading the model raises, when the call on the whole text raises,
  or when the batched call on the sentences raises, the analysis ends with that error
  and returns no result. Conversely an analysis result exists only when the model was
  loaded (or cached), the call on the text returned a result, from which label and
  score are taken, and the batched call, if one was due, returned too.
\<close>

theorem classifier_failure_is_surfaced:
  "(cache w = None \<and> pipeline = Inl e \<longrightarrow> fst (analyze_text pipeline t w) = Inl e) \<and>
   (fst (load_detector_pipe pipeline w) = Inr pipe \<and> pipe (Single t) True 512 = Inl e \<longrightarrow>
      fst (analyze_text pipeline t w) = Inl e) \<and>
   (fst (load_detector_pipe pipeline w) = Inr pipe \<and> pipe (Single t) True 512 = Inr (r0 # rs) \<and>
    split_sentences t \<noteq> [] \<and> pipe (Batch (split_sentences t)) True 512 = Inl e \<longrightarrow>
      fst (analyze_text pipeline t w) = Inl e) \<and>
   (fst (analyze_text pipeline t w) = Inr a \<longrightarrow>
      (\<exists>used d ds. fst (load_detector_pipe pipeline w) = Inr used \<and>
         used (Single t) True 512 = Inr (d # ds) \<and>
         label a = label d \<and> score a = score d * 100 \<and>
         (split_sentences t = [] \<or>
          (\<exists>results. used (Batch (split_sentences t)) True 512 = Inr results))))"
proof -
  have 1: "cache w = None \<and> pipeline = Inl e \<longrightarrow> fst (analyze_text pipeline t w) = Inl e"
    by (simp add: analyze_text_def load_detector_pipe_def Let_def)
  have 2: "fst (load_detector_pipe pipeline w) = Inr pipe \<and> pipe (Single t) True 512 = Inl e \<longrightarrow>
      fst (analyze_text pipeline t w) = Inl e"
    by (auto simp: analyze_text_def call_pipe_def split: prod.splits sum.splits)
  have 3: "fst (load_detector_pipe pipeline w) = Inr pipe \<and> pipe (Single t) True 512 = Inr (r0 # rs) \<and>
    split_sentences t \<noteq> [] \<and> pipe (Batch (split_sentences t)) True 512 = Inl e \<longrightarrow>
      fst (analyze_text pipeline t w) = Inl e"
  proof
    assume h: "fst (load_detector_pipe pipeline w) = Inr pipe \<and> pipe (Single t) True 512 = Inr (r0 # rs) \<and>
      split_sentences t \<noteq> [] \<and> pipe (Batch (split_sentences t)) True 512 = Inl e"
    obtain w1 where l: "load_detector_pipe pipeline w = (Inr pipe, w1)"
      using h by (cases "load_detector_pipe pipeline w") auto
    let ?w2 = "w1\<lparr>calls := calls w1 @ [Single t]\<rparr>"
    have l2: "load_detector_pipe pipeline ?w2 = (Inr pipe, ?w2)"
      using l by (rule load_after_call)
    have "fst (analyze_sentences pipeline t ?w2) = Inl e"
      using h l2 by (simp add: analyze_sentences_def call_pipe_def)
    then show "fst (analyze_text pipeline t w) = Inl e"
      using h l by (auto simp: analyze_text_def call_pipe_def Let_def split: prod.splits sum.splits)
  qed
  have 4: "fst (analyze_text pipeline t w) = Inr a \<longrightarrow>
      (\<exists>used d ds. fst (load_detector_pipe pipeline w) = Inr used \<and>
         used (Single t) True 512 = Inr (d # ds) \<and>
         label a = label d \<and> score a = score d * 100 \<and>
         (split_sentences t = [] \<or>
          (\<exists>results. used (Batch (split_sentences t)) True 512 = Inr results)))"
  proof
    assume "fst (analyze_text pipeline t w) = Inr a"
    then obtain w' where r: "analyze_text pipeline t w = (Inr a, w')"
      by (cases "analyze_text pipeline t w") auto
    from analyze_text_Inr [OF r] obtain used w1 d ds where
      l: "load_detector_pipe pipeline w = (Inr used, w1)" and
      p: "used (Single t) True 512 = Inr (d # ds)" and
      f: "label a = label d" "score a = score d * 100" and
      s: "analyze_sentences pipeline t (w1\<lparr>calls := calls w1 @ [Single t]\<rparr>)
         = (Inr (sentences a), w')" by blast
    let ?w2 = "w1\<lparr>calls := calls w1 @ [Single t]\<rparr>"
    have l2: "load_detector_pipe pipeline ?w2 = (Inr used, ?w2)"
      using l by (rule load_after_call)
    from analyze_sentences_Inr [OF s] l2
    have "split_sentences t = [] \<or>
          (\<exists>results. used (Batch (split_sentences t)) True 512 = Inr results)" by auto
    with l p f show "\<exists>used d ds. fst (load_detector_pipe pipeline w) = Inr used \<and>
         used (Single t) True 512 = Inr (d # ds) \<and>
         label a = label d \<and> score a = score d * 100 \<and>
         (split_sentences t = [] \<or>
          (\<exists>results. used (Batch (split_sentences t)) True 512 = Inr results))"
      by (intro exI [of _ used] exI [of _ d] exI [of _ ds]) simp
  qed
  from 1 2 3 4 show ?thesis by blast
qed

theorem classifier_failure_is_surfaced_witness:
  "cache w0 = None \<and>
   fst (analyze_text (Inl (Raised (py ''OSError''))) (py ''Some text. More.'') w0)
     = Inl (Raised (py ''OSError'')) \<and>
   fst (analyze_text (Inr (flaky (\<lambda>inp. True) (Raised (py ''RuntimeError'')) scenario))
     (py ''Some text. More.'') w0) = Inl (Raised (py ''RuntimeError'')) \<and>
   split_sentences (py ''Some text. More.'') \<noteq> [] \<and>
   fst (analyze_text (Inr (flaky is_batch (Raised (py ''RuntimeError'')) scenario))
     (py ''Some text. More.'') w0) = Inl (Raised (py ''RuntimeError'')) \<and>
   label (projr (fst (analyze_text (Inr (stub scenario))
     (py ''This is obviously written by a human with quirky style!! I think so, yes.'') w0))) = py ''Real''"
proof -
  let ?t = "py ''Some text. More.''"
  let ?e = "Raised (py ''RuntimeError'')"
  have c: "cache w0 = None" by (simp add: w0_def)
  have s: "split_sentences ?t = [py ''Some text.'', py ''More.'']"
    by (simp add: split_sentences_def strip_def is_space_def is_terminal_def py_def)
  have 1: "fst (analyze_text (Inl (Raised (py ''OSError''))) ?t w0) = Inl (Raised (py ''OSError''))"
    using classifier_failure_is_surfaced
      [where w = w0 and pipeline = "Inl (Raised (py ''OSError''))" and e = "Raised (py ''OSError'')"
         and t = ?t] c by blast
  have 2: "fst (analyze_text (Inr (flaky (\<lambda>inp. True) ?e scenario)) ?t w0) = Inl ?e"
    using classifier_failure_is_surfaced
      [where w = w0 and pipeline = "Inr (flaky (\<lambda>inp. True) ?e scenario)" and e = ?e
         and t = ?t and pipe = "flaky (\<lambda>inp. True) ?e scenario"]
    by (simp add: load_w0 flaky_def)
  have 3: "fst (analyze_text (Inr (flaky is_batch ?e scenario)) ?t w0) = Inl ?e"
    using classifier_failure_is_surfaced
      [where w = w0 and pipeline = "Inr (flaky is_batch ?e scenario)" and e = ?e
         and t = ?t and pipe = "flaky is_batch ?e scenario" and ?r0.0 = "scenario ?t" and rs = "[]"]
    by (simp add: load_w0 flaky_def is_batch_def stub_def s)
  let ?X = "analyze_text (Inr (stub scenario))
     (py ''This is obviously written by a human with quirky style!! I think so, yes.'') w0"
  have 4: "label (projr (fst ?X)) = py ''Real''"
    using classifier_failure_is_surfaced
      [where w = w0 and pipeline = "Inr (stub scenario)" and a = "projr (fst ?X)"
         and t = "py ''This is obviously written by a human with quirky style!! I think so, yes.''"]
    by (simp add: scenario_run)
  from c 1 2 3 4 s show ?thesis by simp
qed

text \<open>
  C2 as stated fails: with classifiers whose native labels are \<^verbatim>\<open>Fake\<close>, \<^verbatim>\<open>Real\<close> and
  \<^verbatim>\<open>LABEL_0\<close> the results carry these three different strings; none of them is
  \<^verbatim>\<open>Human\<close> or \<^verbatim>\<open>AI\<close>, and they do not fit a two-valued enumeration.
\<close>

theorem label_is_not_mapped_to_enum_counterexample:
  "label (projr (fst (analyze_text (Inr (stub (\<lambda>t. \<lparr>label = py ''Fake'', score = 0.995\<rparr>)))
     (py ''Some text'') w0))) = py ''Fake'' \<and>
   py ''Fake'' \<notin> {py ''Human'', py ''AI''} \<and>
   label (projr (fst (analyze_text (Inr (stub (\<lambda>t. \<lparr>label = py ''Real'', score = 0.9\<rparr>)))
     (py ''Some text'') w0))) = py ''Real'' \<and>
   label (projr (fst (analyze_text (Inr (stub (\<lambda>t. \<lparr>label = py ''LABEL_0'', score = 0.7\<rparr>)))
     (py ''Some text'') w0))) = py ''LABEL_0'' \<and>
   distinct [py ''Fake'', py ''Real'', py ''LABEL_0'']"
  by (simp add: stub_run_pair) (simp add: py_def)

text \<open>
  C2, as amended. The label of a result is the native label string of the classifier,
  passed through unchanged (no mapping onto an enumeration takes place), at the level of
  the document and for every sentence; the score is the classifier's score multiplied by
  100, hence within 0 and 100 whenever the classifier's score is within 0 and 1.
\<close>

theorem labels_pass_through_and_scores_are_percentages:
  assumes "analyze_text pipeline t w = (Inr a, w')"
  shows "\<exists>pipe d ds. fst (load_detector_pipe pipeline w) = Inr pipe \<and>
     pipe (Single t) True 512 = Inr (d # ds) \<and>
     label a = label d \<and> score a = score d * 100 \<and>
     (0 \<le> score d \<and> score d \<le> 1 \<longrightarrow> 0 \<le> score a \<and> score a \<le> 100) \<and>
     (sentences a = [] \<or>
      (\<exists>results. pipe (Batch (split_sentences t)) True 512 = Inr results \<and>
         map label (sentences a) = map label results \<and>
         map score (sentences a) = map (\<lambda>r. score r * 100) results \<and>
         ((\<forall>r\<in>set results. 0 \<le> score r \<and> score r \<le> 1) \<longrightarrow>
            (\<forall>s\<in>set (sentences a). 0 \<le> score s \<and> score s \<le> 100))))"
proof -
  from analyze_text_Inr [OF assms] obtain pipe w1 d ds where
    l: "load_detector_pipe pipeline w = (Inr pipe, w1)" and
    p: "pipe (Single t) True 512 = Inr (d # ds)" and
    f: "label a = label d" "score a = score d * 100" and
    s: "analyze_sentences pipeline t (w1\<lparr>calls := calls w1 @ [Single t]\<rparr>)
       = (Inr (sentences a), w')" by blast
  let ?w2 = "w1\<lparr>calls := calls w1 @ [Single t]\<rparr>"
  have l2: "load_detector_pipe pipeline ?w2 = (Inr pipe, ?w2)"
    using l by (rule load_after_call)
  have range: "0 \<le> score d \<and> score d \<le> 1 \<longrightarrow> 0 \<le> score a \<and> score a \<le> 100"
    using f by simp
  have sent: "sentences a = [] \<or>
      (\<exists>results. pipe (Batch (split_sentences t)) True 512 = Inr results \<and>
         map label (sentences a) = map label results \<and>
         map score (sentences a) = map (\<lambda>r. score r * 100) results \<and>
         ((\<forall>r\<in>set results. 0 \<le> score r \<and> score r \<le> 1) \<longrightarrow>
            (\<forall>s\<in>set (sentences a). 0 \<le> score s \<and> score s \<le> 100)))"
  proof (cases "sentences a = []")
    case True
    then show ?thesis by simp
  next
    case False
    with analyze_sentences_Inr [OF s] l2 obtain results where
      b: "pipe (Batch (split_sentences t)) True 512 = Inr results" and
      e: "sentence_entries (split_sentences t) 0 results = Inr (sentences a)" by auto
    from sentence_entries_Inr [OF e] have
      ml: "map label (sentences a) = map label results" and
      ms: "map score (sentences a) = map (\<lambda>r. score r * 100) results" by simp_all
    have "(\<forall>r\<in>set results. 0 \<le> score r \<and> score r \<le> 1) \<longrightarrow>
            (\<forall>s\<in>set (sentences a). 0 \<le> score s \<and> score s \<le> 100)"
    proof (intro impI ballI)
      fix s assume r: "\<forall>r\<in>set results. 0 \<le> score r \<and> score r \<le> 1" and "s \<in> set (sentences a)"
      then have "score s \<in> set (map score (sentences a))" by simp
      then have "score s \<in> set (map (\<lambda>r. score r * 100) results)" by (simp only: ms)
      then obtain r where "r \<in> set results" "score s = score r * 100" by auto
      with r show "0 \<le> score s \<and> score s \<le> 100" by auto
    qed
    with b ml ms show ?thesis by blast
  qed
  from l have "fst (load_detector_pipe pipeline w) = Inr pipe" by simp
  with p f range sent show ?thesis by blast
qed

theorem labels_pass_through_and_scores_are_percentages_witness:
  "label (projr (fst (analyze_text (Inr (stub scenario))
     (py ''This is obviously written by a human with quirky style!! I think so, yes.'') w0))) = py ''Real'' \<and>
   score (scenario (py ''This is obviously written by a human with quirky style!! I think so, yes.'')) = 0.12 \<and>
   score (projr (fst (analyze_text (Inr (stub scenario))
     (py ''This is obviously written by a human with quirky style!! I think so, yes.'') w0))) = 12 \<and>
   map score (sentences (projr (fst (analyze_text (Inr (stub scenario))
     (py ''This is obviously written by a human with quirky style!! I think so, yes.'') w0)))) = [10, 15] \<and>
   map label (sentences (projr (fst (analyze_text (Inr (stub scenario))
     (py ''This is obviously written by a human with quirky style!! I think so, yes.'') w0)))) =
     [py ''Real'', py ''Real'']"
  using labels_pass_through_and_scores_are_percentages [OF scenario_run]
  by (simp add: scenario_run) (simp add: scenario_def py_def)

text \<open>
  C1 as stated fails: on a text of white space only, and on the empty text, the analysis
  does not fail, and the classifier is called on that text.
\<close>

theorem analyze_text_classifies_blank_text_counterexample:
  "strip [32, 10, 32] = [] \<and>
   \<not> isl (fst (analyze_text (Inr (stub scenario)) [32, 10, 32] w0)) \<and>
   calls (snd (analyze_text (Inr (stub scenario)) [32, 10, 32] w0)) = [Single [32, 10, 32]] \<and>
   strip [] = [] \<and>
   \<not> isl (fst (analyze_text (Inr (stub scenario)) [] w0)) \<and>
   calls (snd (analyze_text (Inr (stub scenario)) [] w0)) = [Single []]"
  by (simp add: blank_run empty_run) (simp add: strip_def is_space_def)

text \<open>
  C1, as amended. The analysis itself makes no check for empty input: whatever the text,
  blank or not, its first classification call is on the text as given, and with a
  classifier that answers, the analysis of a blank text returns a result (with no
  sentences and no paragraphs). Blank text is rejected one level up: the report handler
  trims the submitted text and, when nothing is left, answers with status 400 and leaves
  the state as it was, so that no classification call is made; otherwise its first
  classification call is on the trimmed text.
\<close>

theorem empty_text_is_rejected_by_the_report_handler:
  "(fst (load_detector_pipe pipeline w) = Inr pipe \<longrightarrow>
      take (Suc (length (calls w))) (calls (snd (analyze_text pipeline t w))) = calls w @ [Single t]) \<and>
   (fst (load_detector_pipe pipeline w) = Inr pipe \<and> pipe (Single t) True 512 = Inr (d # ds) \<and>
    strip t = [] \<longrightarrow>
      fst (analyze_text pipeline t w) =
        Inr \<lparr>label = label d, score = score d * 100, originality = 100 - score d * 100,
          text_of = t, sentences = [], paragraphs = []\<rparr>) \<and>
   (strip (case form (py ''text'') of None \<Rightarrow> [] | Some v \<Rightarrow> v) = [] \<longrightarrow>
      report wrap pipeline form w =
        (Inr (Body (py ''Text is required for report generation'') 400), w)) \<and>
   (strip (case form (py ''text'') of None \<Rightarrow> [] | Some v \<Rightarrow> v) \<noteq> [] \<and>
    fst (load_detector_pipe pipeline w) = Inr pipe \<longrightarrow>
      take (Suc (length (calls w))) (calls (snd (report wrap pipeline form w))) =
        calls w @ [Single (strip (case form (py ''text'') of None \<Rightarrow> [] | Some v \<Rightarrow> v))])"
proof -
  let ?text = "strip (case form (py ''text'') of None \<Rightarrow> [] | Some v \<Rightarrow> v)"
  have 1: "fst (load_detector_pipe pipeline w) = Inr pipe \<longrightarrow>
      take (Suc (length (calls w))) (calls (snd (analyze_text pipeline t w))) = calls w @ [Single t]"
    for t
  proof
    assume "fst (load_detector_pipe pipeline w) = Inr pipe"
    from analyze_text_calls [OF this, of t] obtain ext where
      "calls (snd (analyze_text pipeline t w)) = calls w @ Single t # ext" by blast
    then show "take (Suc (length (calls w))) (calls (snd (analyze_text pipeline t w)))
      = calls w @ [Single t]" by simp
  qed
  have 2: "fst (load_detector_pipe pipeline w) = Inr pipe \<and> pipe (Single t) True 512 = Inr (d # ds) \<and>
    strip t = [] \<longrightarrow>
      fst (analyze_text pipeline t w) =
        Inr \<lparr>label = label d, score = score d * 100, originality = 100 - score d * 100,
          text_of = t, sentences = [], paragraphs = []\<rparr>"
    using analyze_text_blank by blast
  have 3: "?text = [] \<longrightarrow> report wrap pipeline form w =
        (Inr (Body (py ''Text is required for report generation'') 400), w)"
    by (simp add: report_def)
  have 4: "?text \<noteq> [] \<and> fst (load_detector_pipe pipeline w) = Inr pipe \<longrightarrow>
      take (Suc (length (calls w))) (calls (snd (report wrap pipeline form w))) =
        calls w @ [Single ?text]"
  proof
    assume h: "?text \<noteq> [] \<and> fst (load_detector_pipe pipeline w) = Inr pipe"
    then have "snd (report wrap pipeline form w) = snd (analyze_text pipeline ?text w)"
      by (auto simp: report_def Let_def split: prod.splits sum.splits)
    with 1 [of ?text] h show "take (Suc (length (calls w))) (calls (snd (report wrap pipeline form w))) =
        calls w @ [Single ?text]" by simp
  qed
  from 1 [of t] 2 3 4 show ?thesis by blast
qed

theorem empty_text_is_rejected_by_the_report_handler_witness:
  "strip [32, 10, 32] = [] \<and>
   calls (snd (analyze_text (Inr (stub scenario)) [32, 10, 32] w0)) = [Single [32, 10, 32]] \<and>
   fst (analyze_text (Inr (stub scenario)) [32, 10, 32] w0) =
     Inr \<lparr>label = py ''Real'', score = 12, originality = 88, text_of = [32, 10, 32],
       sentences = [], paragraphs = []\<rparr> \<and>
   report (\<lambda>s n. [s]) (Inr (stub scenario)) [py ''text'' \<mapsto> [32, 10, 32]] w0 =
     (Inr (Body (py ''Text is required for report generation'') 400), w0) \<and>
   report (\<lambda>s n. [s]) (Inr (stub scenario)) Map.empty w0 =
     (Inr (Body (py ''Text is required for report generation'') 400), w0) \<and>
   strip (py '' Some text '') = py ''Some text'' \<and>
   take 1 (calls (snd (report (\<lambda>s n. [s]) (Inr (stub scenario)) [py ''text'' \<mapsto> py '' Some text ''] w0)))
     = [Single (py ''Some text'')]"
proof -
  have l: "fst (load_detector_pipe (Inr (stub scenario)) w0) = Inr (stub scenario)"
    by (simp add: load_w0)
  have c: "calls w0 = []" by (simp add: w0_def)
  have s: "strip [32, 10, 32] = []" "strip (py '' Some text '') = py ''Some text''"
    "strip [] = []" "py ''Some text'' \<noteq> []"
    by (simp_all add: strip_def is_space_def py_def)
  have p: "stub scenario (Single [32, 10, 32]) True 512 = Inr [\<lparr>label = py ''Real'', score = 0.12\<rparr>]"
    by (simp add: stub_def scenario_def py_def)
  note T = empty_text_is_rejected_by_the_report_handler
  have 1: "calls (snd (analyze_text (Inr (stub scenario)) [32, 10, 32] w0)) = [Single [32, 10, 32]]"
    using T [where pipeline = "Inr (stub scenario)" and w = w0 and pipe = "stub scenario"
        and t = "[32, 10, 32]"] l c by (simp add: blank_run)
  have 2: "fst (analyze_text (Inr (stub scenario)) [32, 10, 32] w0) =
     Inr \<lparr>label = py ''Real'', score = 12, originality = 88, text_of = [32, 10, 32],
       sentences = [], paragraphs = []\<rparr>"
    using T [where pipeline = "Inr (stub scenario)" and w = w0 and pipe = "stub scenario"
        and t = "[32, 10, 32]" and d = "\<lparr>label = py ''Real'', score = 0.12\<rparr>" and ds = "[]"]
      l p s(1) by simp
  have 3: "report (\<lambda>s n. [s]) (Inr (stub scenario)) [py ''text'' \<mapsto> [32, 10, 32]] w0 =
     (Inr (Body (py ''Text is required for report generation'') 400), w0)"
    using T [where form = "[py ''text'' \<mapsto> [32, 10, 32]]" and wrap = "\<lambda>s n. [s]"
        and pipeline = "Inr (stub scenario)" and w = w0] s(1) by simp
  have 4: "report (\<lambda>s n. [s]) (Inr (stub scenario)) Map.empty w0 =
     (Inr (Body (py ''Text is required for report generation'') 400), w0)"
    using T [where form = "Map.empty" and wrap = "\<lambda>s n. [s]"
        and pipeline = "Inr (stub scenario)" and w = w0] s(3) by simp
  have 5: "take 1 (calls (snd (report (\<lambda>s n. [s]) (Inr (stub scenario))
        [py ''text'' \<mapsto> py '' Some text ''] w0))) = [Single (py ''Some text'')]"
    using T [where form = "[py ''text'' \<mapsto> py '' Some text '']" and wrap = "\<lambda>s n. [s]"
        and pipeline = "Inr (stub scenario)" and w = w0 and pipe = "stub scenario"] l c s(2,4)
    by simp
  from 1 2 3 4 5 s show ?thesis by simp
qed


section \<open>Rendering claims\<close>

text \<open>
  C3 as stated fails on the console: for a text that the classifier calls \<^verbatim>\<open>Real\<close>
  with confidence 0.99, the selection by thresholds alone gives the top tier, but the
  console summary prints the human-written statement and no tier line at all.
\<close>

theorem console_summary_tier_counterexample:
  "label (projr (fst (detect_ai_content (Inr (stub (\<lambda>t. \<lparr>label = py ''Real'', score = 0.99\<rparr>)))
     (py ''Some text'') w0))) = py ''Real'' \<and>
   score (projr (fst (detect_ai_content (Inr (stub (\<lambda>t. \<lparr>label = py ''Real'', score = 0.99\<rparr>)))
     (py ''Some text'') w0))) = 99 \<and>
   spec_tier (py ''Real'') 99 = TopTier \<and>
   console_message TopTier \<notin> set (stdout (snd (detect_ai_content
     (Inr (stub (\<lambda>t. \<lparr>label = py ''Real'', score = 0.99\<rparr>))) (py ''Some text'') w0))) \<and>
   stdout (snd (detect_ai_content
     (Inr (stub (\<lambda>t. \<lparr>label = py ''Real'', score = 0.99\<rparr>))) (py ''Some text'') w0)) =
     [py ''Loading Model... (First time it will take time)'',
      [10] @ py ''--- Analysis Result ---'',
      [128994] @ py '' This text looks Human Written.'',
      py ''Confidence Score: 99.00%'']"
  by (simp add: detect_ai_content_lines [OF stub_run_pair] spec_tier_def format_99) (simp add: py_def)

text \<open>
  C3, as amended. The console summary tests the label first. For the label \<^verbatim>\<open>Fake\<close> it
  prints the alert, the confidence score and then the tier chosen by the score: above 98
  the top tier, else above 90 the middle tier, else the basic tool; this is the tier
  that the thresholds of the specification select. For any other label it prints the
  human-written statement and the confidence score, and no tier, whatever the score.
  The score is printed with exactly two decimals. The selection purely by thresholds
  (score above 98, else above 90, else the label) is what the page template does. For a
  stub classifier answering \<^verbatim>\<open>Fake\<close> with 0.995 the message of the tier above 98 is
  selected, on the console and on the page.
\<close>

theorem console_summary_tests_label_first:
  assumes "analyze_text pipeline t w = (Inr a, w1)"
  shows "fst (detect_ai_content pipeline t w) = Inr a \<and>
    (label a = py ''Fake'' \<longrightarrow>
       stdout (snd (detect_ai_content pipeline t w)) =
         stdout w1 @
         [[10] @ py ''--- Analysis Result ---'',
          [128308] @ py '' ALERT: This text is likely AI Generated!'',
          py ''Confidence Score: '' @ format_2f (score a) @ py ''%'',
          console_message (if score a > 98 then TopTier
                           else if score a > 90 then MidTier else BasicTool)] \<and>
       last (stdout (snd (detect_ai_content pipeline t w))) =
         console_message (spec_tier (label a) (score a))) \<and>
    (label a \<noteq> py ''Fake'' \<longrightarrow>
       stdout (snd (detect_ai_content pipeline t w)) =
         stdout w1 @
         [[10] @ py ''--- Analysis Result ---'',
          console_message HumanWritten,
          py ''Confidence Score: '' @ format_2f (score a) @ py ''%'']) \<and>
    (\<exists>sign ds d e. format_2f (score a) = sign @ ds @ [46, d, e] \<and>
       (sign = [] \<or> sign = [45]) \<and> ds \<noteq> [] \<and>
       (\<forall>c\<in>set (ds @ [d, e]). 48 \<le> c \<and> c \<le> 57)) \<and>
    template_interpretation a = template_message (spec_tier (label a) (score a))"
proof -
  note L = detect_ai_content_lines [OF assms]
  have 1: "fst (detect_ai_content pipeline t w) = Inr a" by (simp add: L)
  have 2: "label a = py ''Fake'' \<longrightarrow>
       stdout (snd (detect_ai_content pipeline t w)) =
         stdout w1 @
         [[10] @ py ''--- Analysis Result ---'',
          [128308] @ py '' ALERT: This text is likely AI Generated!'',
          py ''Confidence Score: '' @ format_2f (score a) @ py ''%'',
          console_message (if score a > 98 then TopTier
                           else if score a > 90 then MidTier else BasicTool)] \<and>
       last (stdout (snd (detect_ai_content pipeline t w))) =
         console_message (spec_tier (label a) (score a))"
    by (simp add: L spec_tier_def)
  have 3: "label a \<noteq> py ''Fake'' \<longrightarrow>
       stdout (snd (detect_ai_content pipeline t w)) =
         stdout w1 @
         [[10] @ py ''--- Analysis Result ---'',
          console_message HumanWritten,
          py ''Confidence Score: '' @ format_2f (score a) @ py ''%'']"
    by (simp add: L)
  from 1 2 3 format_2f_shape [of "score a"] template_follows_thresholds [of a]
  show ?thesis by blast
qed

theorem console_summary_tests_label_first_witness:
  "label (projr (fst (detect_ai_content (Inr (stub (\<lambda>t. \<lparr>label = py ''Fake'', score = 0.995\<rparr>)))
     (py ''Some text'') w0))) = py ''Fake'' \<and>
   score (projr (fst (detect_ai_content (Inr (stub (\<lambda>t. \<lparr>label = py ''Fake'', score = 0.995\<rparr>)))
     (py ''Some text'') w0))) = 99.5 \<and>
   stdout (snd (detect_ai_content
     (Inr (stub (\<lambda>t. \<lparr>label = py ''Fake'', score = 0.995\<rparr>))) (py ''Some text'') w0)) =
     [py ''Loading Model... (First time it will take time)'',
      [10] @ py ''--- Analysis Result ---'',
      [128308] @ py '' ALERT: This text is likely AI Generated!'',
      py ''Confidence Score: 99.50%'',
      py ''Possible Source: High probability of GPT-4 or Claude (Very structured)''] \<and>
   template_interpretation (projr (fst (analyze_text
     (Inr (stub (\<lambda>t. \<lparr>label = py ''Fake'', score = 0.995\<rparr>))) (py ''Some text'') w0))) =
     py ''Possible Source: GPT-4 / Claude (very structured)'' \<and>
   stdout (snd (detect_ai_content
     (Inr (stub (\<lambda>t. \<lparr>label = py ''Real'', score = 0.12\<rparr>))) (py ''Some text'') w0)) =
     [py ''Loading Model... (First time it will take time)'',
      [10] @ py ''--- Analysis Result ---'',
      [128994] @ py '' This text looks Human Written.'',
      py ''Confidence Score: 12.00%'']"
proof -
  have f: "format_2f 12 = py ''12.00''"
    by (simp add: format_2f_def round_half_even_def dec.simps py_def)
  have a: "py ''Real'' \<noteq> py ''Fake''" by (simp add: py_def)
  note A = console_summary_tests_label_first
    [OF stub_run_pair [of "\<lparr>label = py ''Fake'', score = 0.995\<rparr>"]]
  note B = console_summary_tests_label_first
    [OF stub_run_pair [of "\<lparr>label = py ''Real'', score = 0.12\<rparr>"]]
  from A have 1: "stdout (snd (detect_ai_content
     (Inr (stub (\<lambda>t. \<lparr>label = py ''Fake'', score = 0.995\<rparr>))) (py ''Some text'') w0)) =
     [py ''Loading Model... (First time it will take time)'',
      [10] @ py ''--- Analysis Result ---'',
      [128308] @ py '' ALERT: This text is likely AI Generated!'',
      py ''Confidence Score: 99.50%'',
      py ''Possible Source: High probability of GPT-4 or Claude (Very structured)'']"
    by (simp add: format_99) (simp add: py_def)
  from A have 2: "fst (detect_ai_content
     (Inr (stub (\<lambda>t. \<lparr>label = py ''Fake'', score = 0.995\<rparr>))) (py ''Some text'') w0) =
     Inr \<lparr>label = py ''Fake'', score = 199 / 2, originality = 1 / 2,
       text_of = py ''Some text'',
       sentences = [\<lparr>label = py ''Fake'', score = 199 / 2, originality = 1 / 2,
          sentence = py ''Some text''\<rparr>],
       paragraphs = [py ''Some text'']\<rparr>"
    by simp
  from A have 3: "template_interpretation (projr (fst (analyze_text
     (Inr (stub (\<lambda>t. \<lparr>label = py ''Fake'', score = 0.995\<rparr>))) (py ''Some text'') w0))) =
     py ''Possible Source: GPT-4 / Claude (very structured)''"
    by (simp add: stub_run_pair spec_tier_def)
  from B a have 4: "stdout (snd (detect_ai_content
     (Inr (stub (\<lambda>t. \<lparr>label = py ''Real'', score = 0.12\<rparr>))) (py ''Some text'') w0)) =
     [py ''Loading Model... (First time it will take time)'',
      [10] @ py ''--- Analysis Result ---'',
      [128994] @ py '' This text looks Human Written.'',
      py ''Confidence Score: 12.00%'']"
    by (simp add: f) (simp add: py_def)
  from 1 2 3 4 show ?thesis by simp
qed



end
